theory Spec2Isabelle
  imports Complex_Main
begin

section \<open>digicomm: a shallow embedding\<close>

text \<open>
  The library works on numpy arrays of floats and complex floats. Arrays are lists here,
  Python's unbounded integers are \<open>int\<close>, and float64 arithmetic is idealised as
  arithmetic on \<open>real\<close> and \<open>complex\<close>: rounding, NaN and infinities are not part
  of the model. Every raise of the source, and every exception numpy or Python raises
  on the paths modelled, is a value \<open>Inl e\<close> of the result type.

  The pulse design \<open>rcosdesign\<close> is not embedded: it selects the formula of each tap
  by equality tests on float64 times (\<open>t == Ts / (4 * alpha)\<close>), and which branch is
  taken depends on the rounding of \<open>t\<close>, which arithmetic on \<open>real\<close> does not
  reproduce.
\<close>

datatype error =
    Exception string    \<comment> \<open>\<open>raise Exception(msg)\<close>, the library's own parameter error\<close>
  | IndexError
  | KeyError string
  | ValueError
  | ZeroDivisionError
  | TypeError
  | OverflowError

subsection \<open>Python indexing, slicing and slice assignment\<close>

text \<open>An index \<open>i\<close> into a sequence of length \<open>n\<close>: \<open>-n, ..., -1\<close> count from the end;
  anything outside \<open>-n, ..., n - 1\<close> is out of range.\<close>

definition py_index :: "nat \<Rightarrow> int \<Rightarrow> nat option" where
  "py_index n i =
     (if 0 \<le> i \<and> i < int n then Some (nat i)
      else if - int n \<le> i \<and> i < 0 then Some (nat (i + int n))
      else None)"

text \<open>\<open>xs[i]\<close> raises IndexError out of range.\<close>

definition getitem :: "'a list \<Rightarrow> int \<Rightarrow> error + 'a" where
  "getitem xs i =
     (case py_index (length xs) i of Some k \<Rightarrow> Inr (xs ! k) | None \<Rightarrow> Inl IndexError)"

text \<open>A slice bound of a sequence of length \<open>n\<close>: negative bounds count from the end,
  and the result is clipped to \<open>0..n\<close>. Note that \<open>-0\<close> is \<open>0\<close>.\<close>

definition slice_bound :: "nat \<Rightarrow> int \<Rightarrow> nat" where
  "slice_bound n i = (if i < 0 then nat (max (int n + i) 0) else min (nat i) n)"

definition slice :: "'a list \<Rightarrow> int \<Rightarrow> int \<Rightarrow> 'a list" where
  "slice xs a b =
     (let s = slice_bound (length xs) a; e = slice_bound (length xs) b
      in take (e - s) (drop s xs))"

text \<open>\<open>xs[a:b] = vs\<close> on a numpy array: the value must have the length of the slice,
  or length one (it is then broadcast); anything else raises ValueError.\<close>

definition set_slice :: "'a list \<Rightarrow> int \<Rightarrow> int \<Rightarrow> 'a list \<Rightarrow> error + 'a list" where
  "set_slice xs a b vs =
     (let s = slice_bound (length xs) a; e = slice_bound (length xs) b; m = e - s
      in if length vs = m then Inr (take s xs @ vs @ drop (s + m) xs)
         else if length vs = 1 then Inr (take s xs @ replicate m (hd vs) @ drop (s + m) xs)
         else Inl ValueError)"

text \<open>\<open>xs[a:b] = v\<close> with a scalar \<open>v\<close>.\<close>

definition fill_slice :: "'a list \<Rightarrow> int \<Rightarrow> int \<Rightarrow> 'a \<Rightarrow> 'a list" where
  "fill_slice xs a b v =
     (let s = slice_bound (length xs) a; e = slice_bound (length xs) b; m = e - s
      in take s xs @ replicate m v @ drop (s + m) xs)"

text \<open>\<open>xs[i] = v\<close>.\<close>

definition setitem :: "'a list \<Rightarrow> int \<Rightarrow> 'a \<Rightarrow> error + 'a list" where
  "setitem xs i v =
     (case py_index (length xs) i of Some k \<Rightarrow> Inr (xs[k := v]) | None \<Rightarrow> Inl IndexError)"

text \<open>\<open>np.zeros((n,))\<close> raises ValueError on a negative dimension.\<close>

definition zeros :: "int \<Rightarrow> error + 'a::zero list" where
  "zeros n = (if n < 0 then Inl ValueError else Inr (replicate (nat n) 0))"

text \<open>\<open>int(x)\<close> of a float truncates towards zero; here for \<open>x = (N - 1) / 2\<close>.\<close>

definition int_half :: "int \<Rightarrow> int" where
  "int_half k = (if 0 \<le> k then k div 2 else - ((- k) div 2))"

text \<open>\<open>np.convolve(a, v)\<close> in its default mode \<open>full\<close>: ValueError on an empty
  argument, otherwise the \<open>len(a) + len(v) - 1\<close> sums
  \<open>out[k] = sum_j a[j] * v[k - j]\<close>.\<close>

definition convolve :: "'a::comm_ring_1 list \<Rightarrow> 'a list \<Rightarrow> error + 'a list" where
  "convolve a v =
     (if a = [] \<or> v = [] then Inl ValueError
      else Inr (map (\<lambda>k. \<Sum>j\<leftarrow>[0..<length a].
                       if j \<le> k \<and> k - j < length v then a ! j * v ! (k - j) else 0)
                 [0..<length a + length v - 1]))"

subsection \<open>Noise injection\<close>

definition noiseVariance :: "real \<Rightarrow> real \<Rightarrow> real" where
  "noiseVariance SNR Eb = Eb / (10 powr (SNR / 10))"

text \<open>
  \<open>addNoise(iqs, **kwargs)\<close>. The keyword arguments are a map from names to numbers.
  The two calls of \<open>np.random.normal(scale, size)\<close> are the two lists \<open>gr\<close> and
  \<open>gi\<close> of standard normal draws, scaled by \<open>scale\<close>.
  The test of the first branch is the Python expression
  \<^verbatim>\<open>'SNR' and 'Eb' in kwargs.keys()\<close>, which parses as
  \<^verbatim>\<open>'SNR' and ('Eb' in kwargs.keys())\<close>: the non-empty string \<open>'SNR'\<close> is true, so
  the test is \<open>'Eb' in kwargs\<close>. A missing key in \<open>kwargs[...]\<close> raises KeyError.
\<close>

definition awgn :: "complex list \<Rightarrow> real \<Rightarrow> real list \<Rightarrow> real list \<Rightarrow> complex list" where
  "awgn iqs N0 gr gi =
     (let var = N0 / 2
      in map (\<lambda>k. iqs ! k + Complex (sqrt var * gr ! k) (sqrt var * gi ! k)) [0..<length iqs])"

definition addNoise ::
  "complex list \<Rightarrow> (string \<rightharpoonup> real) \<Rightarrow> real list \<Rightarrow> real list \<Rightarrow> error + complex list" where
  "addNoise iqs kwargs gr gi =
     (if ''Eb'' \<in> dom kwargs then
        (case kwargs ''SNR'' of
           None \<Rightarrow> Inl (KeyError ''SNR'')
         | Some SNR \<Rightarrow>
            (case kwargs ''Eb'' of
               None \<Rightarrow> Inl (KeyError ''Eb'')
             | Some Eb \<Rightarrow> Inr (awgn iqs (noiseVariance SNR Eb) gr gi)))
      else if ''N0'' \<in> dom kwargs then
        (case kwargs ''N0'' of
           None \<Rightarrow> Inl (KeyError ''N0'')
         | Some N0 \<Rightarrow> Inr (awgn iqs N0 gr gi))
      else Inl (Exception ''addNoise(): must specify N0 or SNR & Eb in kwargs.''))"

subsection \<open>Derivative filter design\<close>

text \<open>
  \<open>blackman(M)\<close> of \<open>scipy.signal.windows\<close> (symmetric window): ValueError on a
  negative length, the empty window for \<open>M = 0\<close>, \<open>[1]\<close> for \<open>M = 1\<close>, and otherwise
  \<open>w[i] = 0.42 - 0.5 cos(2 pi i / (M - 1)) + 0.08 cos(4 pi i / (M - 1))\<close>.
\<close>

definition blackman :: "int \<Rightarrow> error + real list" where
  "blackman M =
     (if M < 0 then Inl ValueError
      else if M = 0 then Inr []
      else if M = 1 then Inr [1]
      else Inr (map (\<lambda>i. 0.42 - 0.5 * cos (2 * pi * real_of_int i / real_of_int (M - 1))
                         + 0.08 * cos (4 * pi * real_of_int i / real_of_int (M - 1)))
                 [0..M - 1]))"

text \<open>\<open>(-1) ** n\<close> at an integer-valued \<open>n\<close>.\<close>

definition neg_one_pow :: "int \<Rightarrow> real" where
  "neg_one_pow n = (if even n then 1 else - 1)"

text \<open>
  \<open>createDerivativeFilter(N, Tsamp)\<close>. Past the guard \<open>N\<close> is odd, so \<open>(N - 1) / 2\<close>
  is the integer \<open>(N - 1) div 2\<close> and \<open>np.arange(ndmin, ndmax + 1)\<close> is the integers
  from \<open>ndmin\<close> to \<open>ndmax\<close> (none when \<open>N\<close> is negative). \<open>1 / Tsamp\<close> is evaluated
  first on the right-hand side of the assignment and raises ZeroDivisionError
  for a Python number \<open>Tsamp = 0\<close>. The window is computed last.
\<close>

definition createDerivativeFilter :: "int \<Rightarrow> real \<Rightarrow> error + real list" where
  "createDerivativeFilter N Tsamp =
     (if (N + 1) mod 4 \<noteq> 0
      then Inl (Exception ''createDerivativeFilter: N must be of form 4*n-1'')
      else
        let ndmin = - ((N - 1) div 2);
            ndmax = (N - 1) div 2;
            nd = [ndmin..ndmax]
        in if Tsamp = 0 then Inl ZeroDivisionError
           else
             let d = map (\<lambda>n. if n \<noteq> 0 then 1 / Tsamp * neg_one_pow n / real_of_int n else 0) nd
             in case blackman N of
                  Inl e \<Rightarrow> Inl e
                | Inr w \<Rightarrow> Inr (map2 (*) d w))"

subsection \<open>Sequencing of fallible steps\<close>

definition bind_err :: "error + 'a \<Rightarrow> ('a \<Rightarrow> error + 'b) \<Rightarrow> error + 'b" where
  "bind_err m f = (case m of Inl e \<Rightarrow> Inl e | Inr v \<Rightarrow> f v)"

subsection \<open>Fractional-delay design and the edge-corrected filters\<close>

text \<open>
  \<open>fractionalDelayCoeffs(T, dT, L)\<close>: \<open>dT / T\<close> raises ZeroDivisionError for a
  Python number \<open>T = 0\<close>; \<open>np.arange(-L, L + 1)\<close> is empty for a negative \<open>L\<close>.

  \<open>extend\<close> is the block of four statements that \<open>derivativeFilter\<close> and
  \<open>fractionalDelayFilter\<close> share verbatim (the buffer \<open>x2\<close> and its two linear
  extrapolations). The input \<open>x\<close> is a numpy array and may be complex; \<open>x2\<close> is a
  float array, so each assignment of an array into it keeps the real part only (numpy
  warns and discards the imaginary part). \<open>np.arange(pad, 0, step=-1)\<close> is \<open>pad, ..., 1\<close> and
  \<open>np.arange(1, pad + 1)\<close> is \<open>1, ..., pad\<close>.
\<close>

definition fractionalDelayCoeffs :: "real \<Rightarrow> real \<Rightarrow> int \<Rightarrow> error + real list" where
  "fractionalDelayCoeffs T dT L =
     (if T = 0 then Inl ZeroDivisionError
      else Inr (map (\<lambda>n. let x = (real_of_int n + dT / T) * pi
                         in if x \<noteq> 0 then sin x / x else 1) [- L..L]))"

definition extend :: "complex list \<Rightarrow> int \<Rightarrow> error + real list" where
  "extend x pad =
     bind_err (zeros (int (length x) + 2 * pad)) (\<lambda>x2.
     bind_err (set_slice x2 pad (- pad) (map Re x)) (\<lambda>x2.
     bind_err (getitem x 0) (\<lambda>x0.
     bind_err (getitem x 1) (\<lambda>x1.
     bind_err (set_slice x2 0 pad
                 (map (\<lambda>k. Re (x0 - of_int k * (x1 - x0))) (rev [1..pad]))) (\<lambda>x2.
     bind_err (getitem x (- 1)) (\<lambda>xl.
     bind_err (getitem x (- 2)) (\<lambda>xp.
     set_slice x2 (int (length x2) - pad) (int (length x2))
       (map (\<lambda>k. Re (xl + of_int k * (xl - xp))) [1..pad]))))))))"

definition derivativeFilter :: "complex list \<Rightarrow> int \<Rightarrow> real \<Rightarrow> error + real list" where
  "derivativeFilter x N Tsamp =
     bind_err (createDerivativeFilter N Tsamp) (\<lambda>d.
       let pad = int_half (N - 1)
       in bind_err (extend x pad) (\<lambda>x2.
          bind_err (convolve x2 d) (\<lambda>c. Inr (slice c (2 * pad) (- 2 * pad)))))"

definition derivativeFilter2 ::
  "complex list \<Rightarrow> int \<Rightarrow> real \<Rightarrow> bool \<Rightarrow> error + complex list" where
  "derivativeFilter2 x N Tsamp zero_edge =
     bind_err (createDerivativeFilter N Tsamp) (\<lambda>d.
       let pad = int_half (N - 1)
       in bind_err (convolve x (map complex_of_real d)) (\<lambda>c.
            let xd = slice c pad (- pad)
            in if zero_edge
               then (let xd = fill_slice xd 0 pad 0;
                         xd = fill_slice xd (- pad) (- 1) 0
                     in setitem xd (- 1) 0)
               else Inr xd))"

definition fractionalDelayFilter :: "complex list \<Rightarrow> real \<Rightarrow> int \<Rightarrow> error + real list" where
  "fractionalDelayFilter x gamma N =
     bind_err (fractionalDelayCoeffs 1 gamma (N div 2)) (\<lambda>d.
       let pad = int_half (N - 1)
       in bind_err (extend x pad) (\<lambda>x2.
          bind_err (convolve x2 d) (\<lambda>c. Inr (slice c (2 * pad) (- 2 * pad)))))"


subsection \<open>Bits and symbols\<close>

text \<open>
  \<open>int(np.log2(M))\<close> for a Python integer \<open>M\<close>. numpy turns \<open>M\<close> into a 64-bit
  integer first: an \<open>M\<close> of \<open>2 ** 64\<close> or more has no such representation and the
  call raises TypeError. For a negative \<open>M\<close> the logarithm is NaN and \<open>int\<close> raises
  ValueError; for \<open>M = 0\<close> it is minus infinity and \<open>int\<close> raises OverflowError.
  Otherwise the result is the integer part of the binary logarithm, \<open>ilog2\<close>: the
  float64 logarithm is exact at a power of two, the only orders used below; its
  rounding elsewhere is not modelled.
\<close>

fun ilog2 :: "nat \<Rightarrow> nat" where
  "ilog2 n = (if n < 2 then 0 else Suc (ilog2 (n div 2)))"

declare ilog2.simps [simp del]

definition int_log2 :: "int \<Rightarrow> error + nat" where
  "int_log2 M =
     (if M < 0 then Inl ValueError
      else if M = 0 then Inl OverflowError
      else if 2 ^ 64 \<le> M then Inl TypeError
      else Inr (ilog2 (nat M)))"

text \<open>
  \<open>bitsToSymbols(bits, M)\<close>. \<open>int(len(bits) / n)\<close> raises ZeroDivisionError for
  \<open>n = 0\<close> and is \<open>len(bits) div n\<close> otherwise. The weights
  \<open>2 ** np.arange(n - 1, -1, -1)\<close> are \<open>2 ** (n - 1), ..., 2, 1\<close>. Every slice
  \<open>bits[i*n:(i+1)*n]\<close> of the loop has \<open>n\<close> elements, as the weights have. With
  \<open>n \<le> 63\<close> and bits in \<open>{0, 1}\<close> the sums stay inside numpy's 64-bit integers,
  so they are computed on \<open>int\<close>.
\<close>

definition weights :: "nat \<Rightarrow> int list" where
  "weights n = map (\<lambda>k. 2 ^ k) (rev [0..<n])"

text \<open>The body of the loop: \<open>sum(bits[i*n:(i+1)*n] * w)\<close>.\<close>

definition symbol_at :: "int list \<Rightarrow> nat \<Rightarrow> nat \<Rightarrow> int" where
  "symbol_at bits n i =
     sum_list (map2 (*) (slice bits (int (i * n)) (int ((i + 1) * n))) (weights n))"

definition bitsToSymbols :: "int list \<Rightarrow> int \<Rightarrow> error + int list" where
  "bitsToSymbols bits M =
     bind_err (int_log2 M) (\<lambda>n.
       if n = 0 then Inl ZeroDivisionError
       else
         let nsym = length bits div n
         in Inr (map (symbol_at bits n) [0..<nsym]))"

text \<open>
  \<open>format(s, '0' + str(n) + 'b')\<close>: the binary digits of \<open>s\<close>, most significant
  first, padded with zeros on the left to the width \<open>n\<close>; a negative \<open>s\<close> starts
  with a minus sign, which counts in the width.
\<close>

definition digit :: "nat \<Rightarrow> char" where
  "digit d = (if d = 0 then CHR ''0'' else CHR ''1'')"

fun bin :: "nat \<Rightarrow> string" where
  "bin v = (if v < 2 then [digit v] else bin (v div 2) @ [digit (v mod 2)])"

declare bin.simps [simp del]

definition zfill :: "nat \<Rightarrow> string \<Rightarrow> string" where
  "zfill n s = replicate (n - length s) CHR ''0'' @ s"

definition format_0b :: "nat \<Rightarrow> int \<Rightarrow> string" where
  "format_0b n s =
     (if s < 0 then CHR ''-'' # zfill (n - 1) (bin (nat (- s)))
      else zfill n (bin (nat s)))"

text \<open>\<open>bits[k] = c\<close> with a one-character string \<open>c\<close> stores \<open>int(c)\<close>, which
  raises ValueError on the minus sign.\<close>

definition int_of_char :: "char \<Rightarrow> error + int" where
  "int_of_char c =
     (if c = CHR ''0'' then Inr 0 else if c = CHR ''1'' then Inr 1 else Inl ValueError)"

text \<open>The inner loop of \<open>symbolsToBits\<close>, over \<open>j\<close>: the first \<open>n\<close> characters of
  the string \<open>s\<close>, each converted.\<close>

fun chars_to_bits :: "string \<Rightarrow> error + int list" where
  "chars_to_bits [] = Inr []"
| "chars_to_bits (c # cs) =
     bind_err (int_of_char c) (\<lambda>b. bind_err (chars_to_bits cs) (\<lambda>bs. Inr (b # bs)))"

text \<open>The outer loop, over the symbols.\<close>

fun symbols_loop :: "nat \<Rightarrow> int list \<Rightarrow> error + int list" where
  "symbols_loop n [] = Inr []"
| "symbols_loop n (s # syms) =
     bind_err (chars_to_bits (take n (format_0b n s))) (\<lambda>b.
     bind_err (symbols_loop n syms) (\<lambda>bs. Inr (b @ bs)))"

definition symbolsToBits :: "int list \<Rightarrow> int \<Rightarrow> error + int list" where
  "symbolsToBits syms M = bind_err (int_log2 M) (\<lambda>n. symbols_loop n syms)"

subsection \<open>Frequency-offset estimation\<close>

text \<open>
  The two estimators are the same code with the constant \<open>12\<close> (16-APSK) or \<open>4\<close>
  (QPSK): in \<open>nonLinearXform\<close>, in the coarse estimate, and in the three corrections
  (\<open>24 * np.pi\<close> is \<open>2 * 12 * np.pi\<close>). They are one function of that constant here.

  \<open>nonLinearXform(z)\<close> is \<open>z * conj(z) * exp(1j * order * angle(z))\<close>, elementwise;
  \<open>np.angle\<close> is the principal argument in \<open>(-pi, pi]\<close>, \<open>0\<close> at \<open>0\<close>, and
  \<open>exp(1j * t)\<close> is \<open>cis t\<close>.
\<close>

definition nonLinearXform :: "real \<Rightarrow> complex list \<Rightarrow> complex list" where
  "nonLinearXform order z = map (\<lambda>c. (c * cnj c) * cis (order * Arg c)) z"

text \<open>
  \<open>np.fft.fft(a, n)\<close>: ValueError for \<open>n < 1\<close>; the input is cut or padded with
  zeros to the length \<open>n\<close>, and bin \<open>k\<close> of the result is
  \<open>sum_m x[m] * exp(-2 pi 1j k m / n)\<close>.
\<close>

definition fft :: "complex list \<Rightarrow> nat \<Rightarrow> error + complex list" where
  "fft a n =
     (if n < 1 then Inl ValueError
      else
        let x = take n a @ replicate (n - length a) 0
        in Inr (map (\<lambda>k. \<Sum>m\<leftarrow>[0..<n]. x ! m * cis (- (2 * pi * real k * real m / real n)))
                  [0..<n]))"

text \<open>
  \<open>np.argmax\<close> on a complex array: the order is by real part, then by imaginary
  part, and the first index of the maximum is returned. The loop keeps the best
  index \<open>b\<close> and value \<open>v\<close> so far.
\<close>

definition complex_less :: "complex \<Rightarrow> complex \<Rightarrow> bool" where
  "complex_less a b = (Re a < Re b \<or> (Re a = Re b \<and> Im a < Im b))"

fun argmax_from :: "complex list \<Rightarrow> nat \<Rightarrow> nat \<Rightarrow> complex \<Rightarrow> nat" where
  "argmax_from [] i b v = b"
| "argmax_from (x # xs) i b v =
     (if complex_less v x then argmax_from xs (Suc i) i x else argmax_from xs (Suc i) b v)"

definition argmax :: "complex list \<Rightarrow> nat" where
  "argmax xs = (case xs of [] \<Rightarrow> 0 | x # xs' \<Rightarrow> argmax_from xs' 1 0 x)"

text \<open>The power spectrum \<open>PP2\<close> (the first four statements of either estimator),
  and the bin \<open>idx_max\<close> of its maximum.\<close>

definition power_spectrum :: "real \<Rightarrow> complex list \<Rightarrow> error + complex list" where
  "power_spectrum order rx =
     (let z = nonLinearXform order rx;
          Lfft = 2 * length z
      in bind_err (fft z Lfft) (\<lambda>ZZ. Inr (map (\<lambda>c. c * cnj c) ZZ)))"

definition peak_bin :: "real \<Rightarrow> complex list \<Rightarrow> error + nat" where
  "peak_bin order rx = bind_err (power_spectrum order rx) (\<lambda>PP2. Inr (argmax PP2))"

text \<open>
  The rest of the estimator; \<open>Lfft = 2 * len(z)\<close> is \<open>2 * len(rx)\<close>. The three
  neighbour reads come before the dispatch on \<open>mode\<close>; \<open>PP2[idx_max - 1]\<close> at \<open>idx_max = 0\<close> is \<open>PP2[-1]\<close>, the last bin.
  The corrections divide and take logarithms of float64 numbers: where the code
  divides by zero or takes \<open>log 0\<close>, numpy returns NaN or an infinity and raises
  nothing; the model returns HOL's value of the expression there, and no theorem
  below depends on it.
\<close>

definition freqOffsetEstimation :: "real \<Rightarrow> complex list \<Rightarrow> string \<Rightarrow> error + real" where
  "freqOffsetEstimation order rx mode =
     bind_err (power_spectrum order rx) (\<lambda>PP2.
       let Lfft = 2 * length rx;
           idx_max = argmax PP2;
           vhat2 = (if real Lfft / 2 \<le> real idx_max
                    then (real idx_max - real Lfft) / (real Lfft * order)
                    else real idx_max / (real Lfft * order))
       in bind_err (getitem PP2 (int idx_max - 1)) (\<lambda>P1.
          bind_err (getitem PP2 (int idx_max)) (\<lambda>P2.
          bind_err (getitem PP2 (int idx_max + 1)) (\<lambda>P3.
            let II1 = cmod P1; II2 = cmod P2; II3 = cmod P3;
                II0 = max II1 II3
            in if mode = ''interp_1'' then
                 Inr (vhat2 + 1 / (order * real Lfft) * 0.5 * (II1 - II3) / (II1 - 2 * II2 + II3))
               else if mode = ''interp_2'' then
                 Inr (vhat2 + sgn (II3 - II1) / real Lfft * II0 / (II2 - II0) / 2 / 2 / pi / order)
               else if mode = ''gauss'' then
                 Inr (vhat2 + ((1 / real Lfft) * (ln II1 - ln II3)
                                 / (ln II1 - 2 * ln II2 + ln II3)) / (2 * order * pi))
               else if mode = ''coarse'' then Inr vhat2
               else Inl (Exception ''Invalid mode.'')))))"

definition freqOffsetEstimation16Apsk :: "complex list \<Rightarrow> string \<Rightarrow> error + real" where
  "freqOffsetEstimation16Apsk rx mode = freqOffsetEstimation 12 rx mode"

definition freqOffsetEstimationQpsk :: "complex list \<Rightarrow> string \<Rightarrow> error + real" where
  "freqOffsetEstimationQpsk rx mode = freqOffsetEstimation 4 rx mode"

section \<open>Slices, buffers and convolution: lengths\<close>

lemma length_blackman:
  "0 \<le> M \<Longrightarrow> \<exists>w. blackman M = Inr w \<and> int (length w) = M"
  by (simp add: blackman_def)

lemma bind_err_simps [simp]: "bind_err (Inl e) f = Inl e" "bind_err (Inr v) f = f v"
  by (simp_all add: bind_err_def)

lemma slice_bound_nat [simp]: "slice_bound n (int k) = min k n"
  by (simp add: slice_bound_def)

lemma slice_bound_neg: "0 < k \<Longrightarrow> slice_bound n (- int k) = n - k"
  by (simp add: slice_bound_def nat_diff_distrib' max_def)

lemma slice_bound_zero [simp]: "slice_bound n 0 = 0"
  by (simp add: slice_bound_def)

lemma slice_bound_le: "slice_bound n i \<le> n"
  by (auto simp: slice_bound_def max_def)

lemma set_slice_ok:
  assumes "length vs = slice_bound (length xs) b - slice_bound (length xs) a"
  shows "\<exists>ys. set_slice xs a b vs = Inr ys \<and> length ys = length xs"
proof -
  define s where "s = slice_bound (length xs) a"
  define e where "e = slice_bound (length xs) b"
  have "s \<le> length xs" "e \<le> length xs"
    by (simp_all add: s_def e_def slice_bound_le)
  moreover have "length vs = e - s"
    using assms by (simp add: s_def e_def)
  ultimately have "length (take s xs @ vs @ drop (s + (e - s)) xs) = length xs"
    by simp
  with \<open>length vs = e - s\<close> show ?thesis
    unfolding set_slice_def Let_def s_def [symmetric] e_def [symmetric] by simp
qed

lemma length_fill_slice [simp]: "length (fill_slice xs a b v) = length xs"
  using slice_bound_le [of "length xs" a] slice_bound_le [of "length xs" b]
  by (simp add: fill_slice_def Let_def)

lemma getitem_ok:
  "- int (length xs) \<le> i \<Longrightarrow> i < int (length xs) \<Longrightarrow> \<exists>v. getitem xs i = Inr v"
  by (simp add: getitem_def py_index_def)

lemma length_upto_1 [simp]: "length [1..int p] = p"
  by simp

lemma extend_length:
  assumes "2 \<le> length x" "0 < p"
  shows "\<exists>x2. extend x (int p) = Inr x2 \<and> length x2 = length x + 2 * p"
proof -
  let ?n = "length x + 2 * p"
  have z: "zeros (int (length x) + 2 * int p) = Inr (replicate ?n (0::real))"
    by (simp add: zeros_def nat_add_distrib nat_mult_distrib)
  have "length (map Re x) =
      slice_bound (length (replicate ?n (0::real))) (- int p)
      - slice_bound (length (replicate ?n (0::real))) (int p)"
    using assms by (simp add: slice_bound_neg)
  from set_slice_ok [OF this]
  obtain a where a: "set_slice (replicate ?n (0::real)) (int p) (- int p) (map Re x) = Inr a"
    and la': "length a = length (replicate ?n (0::real))"
    by blast
  have la: "length a = ?n" using la' by simp
  have "\<exists>v. getitem x 0 = Inr v"
    using assms by (intro getitem_ok) auto
  then obtain x0 where x0: "getitem x 0 = Inr x0" ..
  have "\<exists>v. getitem x 1 = Inr v"
    using assms by (intro getitem_ok) auto
  then obtain x1 where x1: "getitem x 1 = Inr x1" ..
  have "\<exists>v. getitem x (- 1) = Inr v"
    using assms by (intro getitem_ok) auto
  then obtain xl where xl: "getitem x (- 1) = Inr xl" ..
  have "\<exists>v. getitem x (- 2) = Inr v"
    using assms by (intro getitem_ok) auto
  then obtain xp where xp: "getitem x (- 2) = Inr xp" ..
  let ?l = "map (\<lambda>k. Re (x0 - of_int k * (x1 - x0))) (rev [1..int p])"
  have "length ?l = slice_bound (length a) (int p) - slice_bound (length a) 0"
    using la by simp
  from set_slice_ok [OF this]
  obtain b where b: "set_slice a 0 (int p) ?l = Inr b" and lb': "length b = length a"
    by blast
  have lb: "length b = ?n" using la lb' by simp
  let ?r = "map (\<lambda>k. Re (xl + of_int k * (xl - xp))) [1..int p]"
  have e: "int (length b) - int p = int (length b - p)"
    using lb by simp
  have "slice_bound (length b) (int (length b) - int p) = length b - p"
    by (simp only: e slice_bound_nat)
  then have "length ?r = slice_bound (length b) (int (length b))
      - slice_bound (length b) (int (length b) - int p)"
    using lb by (simp only: slice_bound_nat) simp
  from set_slice_ok [OF this]
  obtain c where c: "set_slice b (int (length b) - int p) (int (length b)) ?r = Inr c"
    and lc': "length c = length b"
    by blast
  have lc: "length c = ?n" using lb lc' by simp
  show ?thesis
    unfolding extend_def z bind_err_simps a x0 x1 b xl xp c using lc by simp
qed

lemma length_convolve:
  "a \<noteq> [] \<Longrightarrow> v \<noteq> [] \<Longrightarrow> \<exists>c. convolve a v = Inr c \<and> length c = length a + length v - 1"
  by (simp add: convolve_def)

lemma length_slice_trim:
  "0 < p \<Longrightarrow> length (slice c (int p) (- int p)) = length c - 2 * p"
  by (simp add: slice_def Let_def slice_bound_neg)

lemma int_half_even: "int_half (2 * int p) = int p"
  by (simp add: int_half_def)


lemma createDerivativeFilter_length:
  assumes "(N + 1) mod 4 = 0" "0 < N" "Tsamp \<noteq> 0"
  shows "\<exists>d. createDerivativeFilter N Tsamp = Inr d \<and> int (length d) = N"
proof -
  obtain w where w: "blackman N = Inr w" "int (length w) = N"
    using length_blackman [of N] assms(2) by auto
  from assms(1) have odd: "2 * ((N - 1) div 2) = N - 1"
    by presburger
  have "int (length [- ((N - 1) div 2)..(N - 1) div 2]) = N"
    using assms(2) odd by simp
  with assms w show ?thesis
    by (simp add: createDerivativeFilter_def Let_def)
qed

lemma pad_of_odd:
  assumes "odd N" "3 \<le> N"
  shows "\<exists>p. 0 < p \<and> int_half (N - 1) = int p \<and> N = 2 * int p + 1"
proof -
  from assms have "0 < nat ((N - 1) div 2)" by simp
  moreover from assms have "int_half (N - 1) = int (nat ((N - 1) div 2))"
    by (simp add: int_half_def)
  moreover from assms have "N = 2 * int (nat ((N - 1) div 2)) + 1"
    by simp
  ultimately show ?thesis by blast
qed

lemma trimmed_convolution_length:
  assumes "length x2 = n + 2 * p" "length d = 2 * p + 1" "0 < p"
  shows "\<exists>c. convolve x2 d = Inr c \<and> length (slice c (2 * int p) (- 2 * int p)) = n"
proof -
  from assms have "x2 \<noteq> []" "d \<noteq> []" by auto
  from length_convolve [OF this] obtain c where c: "convolve x2 d = Inr c"
    and lc: "length c = length x2 + length d - 1"
    by blast
  have "length (slice c (int (2 * p)) (- int (2 * p))) = length c - 2 * (2 * p)"
    using assms(3) by (intro length_slice_trim) simp
  with lc assms have "length (slice c (2 * int p) (- 2 * int p)) = n"
    by simp
  with c show ?thesis by blast
qed

lemma derivativeFilter_length:
  assumes "2 \<le> length x" "0 < N" "(N + 1) mod 4 = 0" "Tsamp \<noteq> 0"
  shows "\<exists>y. derivativeFilter x N Tsamp = Inr y \<and> length y = length x"
proof -
  from createDerivativeFilter_length [OF assms(3) assms(2) assms(4)]
  obtain d where d: "createDerivativeFilter N Tsamp = Inr d" and ld: "int (length d) = N"
    by blast
  from assms(2,3) have "odd N" "3 \<le> N" by presburger+
  from pad_of_odd [OF this] obtain p
    where p: "0 < p" "int_half (N - 1) = int p" "N = 2 * int p + 1"
    by blast
  from extend_length [OF assms(1) p(1)] obtain x2
    where x2: "extend x (int p) = Inr x2" and lx2: "length x2 = length x + 2 * p"
    by blast
  from ld p(3) have "length d = 2 * p + 1" by linarith
  from trimmed_convolution_length [OF lx2 this p(1)] obtain c
    where c: "convolve x2 d = Inr c"
      and lc: "length (slice c (2 * int p) (- 2 * int p)) = length x"
    by blast
  show ?thesis
    unfolding derivativeFilter_def d bind_err_simps Let_def p(2) x2 c using lc by simp
qed

lemma length_fractionalDelayCoeffs:
  "T \<noteq> 0 \<Longrightarrow> 0 \<le> L \<Longrightarrow>
   \<exists>d. fractionalDelayCoeffs T dT L = Inr d \<and> int (length d) = 2 * L + 1"
  by (simp add: fractionalDelayCoeffs_def)

lemma fractionalDelayFilter_length:
  assumes "2 \<le> length x" "3 \<le> N" "odd N"
  shows "\<exists>y. fractionalDelayFilter x gamma N = Inr y \<and> length y = length x"
proof -
  from pad_of_odd [OF assms(3) assms(2)] obtain p
    where p: "0 < p" "int_half (N - 1) = int p" "N = 2 * int p + 1"
    by blast
  then have L: "N div 2 = int p" by simp
  from length_fractionalDelayCoeffs [of 1 "int p" gamma] obtain d
    where d: "fractionalDelayCoeffs 1 gamma (int p) = Inr d"
      and ld: "int (length d) = 2 * int p + 1"
    by auto
  from extend_length [OF assms(1) p(1)] obtain x2
    where x2: "extend x (int p) = Inr x2" and lx2: "length x2 = length x + 2 * p"
    by blast
  from ld have "length d = 2 * p + 1" by linarith
  from trimmed_convolution_length [OF lx2 this p(1)] obtain c
    where c: "convolve x2 d = Inr c"
      and lc: "length (slice c (2 * int p) (- 2 * int p)) = length x"
    by blast
  show ?thesis
    unfolding fractionalDelayFilter_def L d bind_err_simps Let_def p(2) x2 c using lc by simp
qed

lemma setitem_last_ok:
  "xs \<noteq> [] \<Longrightarrow> \<exists>ys. setitem xs (- 1) v = Inr ys \<and> length ys = length xs"
proof -
  assume "xs \<noteq> []"
  then have "py_index (length xs) (- 1) = Some (nat (- 1 + int (length xs)))"
    by (cases xs) (simp_all add: py_index_def)
  then show ?thesis
    by (simp add: setitem_def)
qed

lemma derivativeFilter2_length:
  assumes "x \<noteq> []" "0 < N" "(N + 1) mod 4 = 0" "Tsamp \<noteq> 0"
  shows "\<exists>y. derivativeFilter2 x N Tsamp zero_edge = Inr y \<and> length y = length x"
proof -
  from createDerivativeFilter_length [OF assms(3) assms(2) assms(4)]
  obtain d where d: "createDerivativeFilter N Tsamp = Inr d" and ld: "int (length d) = N"
    by blast
  from assms(2,3) have "odd N" "3 \<le> N" by presburger+
  from pad_of_odd [OF this] obtain p
    where p: "0 < p" "int_half (N - 1) = int p" "N = 2 * int p + 1"
    by blast
  from ld p(3) have ld': "length d = 2 * p + 1" by linarith
  then have "map complex_of_real d \<noteq> []" by auto
  from length_convolve [OF assms(1) this] obtain c
    where c: "convolve x (map complex_of_real d) = Inr c"
      and lc: "length c = length x + length (map complex_of_real d) - 1"
    by blast
  define xd where "xd = slice c (int p) (- int p)"
  have lxd: "length xd = length x"
    using lc ld' length_slice_trim [OF p(1), of c] by (simp add: xd_def)
  define xd' where "xd' = fill_slice (fill_slice xd 0 (int p) 0) (- int p) (- 1) 0"
  have lxd': "length xd' = length x"
    using lxd by (simp add: xd'_def)
  have "xd' \<noteq> []"
  proof
    assume "xd' = []"
    with lxd' have "length x = 0" by simp
    with assms(1) show False by simp
  qed
  from setitem_last_ok [OF this, of 0] obtain ys
    where ys: "setitem xd' (- 1) 0 = Inr ys" and lys: "length ys = length xd'"
    by blast
  have "length ys = length x"
    using lys lxd' by simp
  then show ?thesis
    unfolding derivativeFilter2_def d bind_err_simps Let_def p(2) c
      xd_def [symmetric] xd'_def [symmetric] ys
    using lxd by simp
qed

lemma extend_single_sample: "extend [c] 1 = Inl IndexError"
  by (simp add: extend_def zeros_def set_slice_def slice_bound_def getitem_def py_index_def)

section \<open>Real and imaginary parts through the filters\<close>

lemma getitem_map: "getitem (map f xs) i = map_sum id f (getitem xs i)"
  by (auto simp: getitem_def py_index_def nat_less_iff)

lemma bind_err_map_sum: "bind_err (map_sum id f m) h = bind_err m (\<lambda>v. h (f v))"
  by (cases m) simp_all

lemma extend_real_part:
  "extend (map (\<lambda>c. complex_of_real (Re c)) x) pad = extend x pad"
  by (simp add: extend_def getitem_map bind_err_map_sum o_def)

lemma derivativeFilter_real_part:
  "derivativeFilter (map (\<lambda>c. complex_of_real (Re c)) x) N Tsamp = derivativeFilter x N Tsamp"
  by (simp add: derivativeFilter_def extend_real_part)

lemma fractionalDelayFilter_real_part:
  "fractionalDelayFilter (map (\<lambda>c. complex_of_real (Re c)) x) gamma N
     = fractionalDelayFilter x gamma N"
  by (simp add: fractionalDelayFilter_def extend_real_part)

lemma additive_sum_list:
  assumes "h 0 = 0" "\<And>a b. h (a + b) = h a + h b"
  shows "h (sum_list (map f js)) = sum_list (map (\<lambda>j. h (f j)) js)"
  by (induction js) (simp_all add: assms)

lemma convolve_real_linear:
  fixes h :: "complex \<Rightarrow> complex"
  assumes "h 0 = 0" "\<And>a b. h (a + b) = h a + h b"
    and "\<And>c r. h (c * complex_of_real r) = h c * complex_of_real r"
  shows "convolve (map h x) (map complex_of_real d)
     = map_sum id (map h) (convolve x (map complex_of_real d))"
proof (cases "x = [] \<or> d = []")
  case True
  then show ?thesis by (auto simp: convolve_def)
next
  case False
  have "(\<Sum>j\<leftarrow>[0..<length x]. if j \<le> k \<and> k - j < length d
            then map h x ! j * map complex_of_real d ! (k - j) else 0)
      = h (\<Sum>j\<leftarrow>[0..<length x]. if j \<le> k \<and> k - j < length d
            then x ! j * map complex_of_real d ! (k - j) else 0)" for k
    unfolding additive_sum_list [of h, OF assms(1,2)]
    by (rule arg_cong [where f = sum_list], rule map_cong)
       (auto simp: assms)
  with False show ?thesis
    by (simp add: convolve_def)
qed

lemma slice_map: "slice (map f xs) a b = map f (slice xs a b)"
  by (simp add: slice_def Let_def take_map drop_map)

lemma fill_slice_map: "fill_slice (map f xs) a b (f v) = map f (fill_slice xs a b v)"
  by (simp add: fill_slice_def Let_def take_map drop_map)

lemma setitem_map: "setitem (map f xs) i (f v) = map_sum id (map f) (setitem xs i v)"
  by (simp add: setitem_def py_index_def map_update)

lemma derivativeFilter2_real_linear:
  fixes h :: "complex \<Rightarrow> complex"
  assumes "h 0 = 0" "\<And>a b. h (a + b) = h a + h b"
    and "\<And>c r. h (c * complex_of_real r) = h c * complex_of_real r"
  shows "derivativeFilter2 (map h x) N Tsamp zero_edge
     = map_sum id (map h) (derivativeFilter2 x N Tsamp zero_edge)"
proof (cases "createDerivativeFilter N Tsamp")
  case (Inl e)
  then show ?thesis by (simp add: derivativeFilter2_def)
next
  case (Inr d)
  note conv = convolve_real_linear [of h, OF assms]
  show ?thesis
  proof (cases "convolve x (map complex_of_real d)")
    case (Inl e)
    with Inr show ?thesis by (simp add: derivativeFilter2_def conv)
  next
    case c: (Inr c)
    have "fill_slice (fill_slice (map h (slice c p (- p))) 0 p 0) (- p) (- 1) 0
        = map h (fill_slice (fill_slice (slice c p (- p)) 0 p 0) (- p) (- 1) 0)" for p
      using fill_slice_map [of h _ _ _ 0] by (simp add: assms(1))
    moreover have "setitem (map h ys) (- 1) 0 = map_sum id (map h) (setitem ys (- 1) 0)" for ys
      using setitem_map [of h ys "- 1" 0] by (simp add: assms(1))
    ultimately show ?thesis
      using Inr c by (simp add: derivativeFilter2_def conv slice_map Let_def)
  qed
qed

section \<open>Symmetry of the designed taps\<close>

lemma blackman_symmetric:
  assumes "blackman M = Inr w" "i < length w"
  shows "w ! i = w ! (length w - 1 - i)"
proof (cases "M < 2")
  case True
  with assms show ?thesis
    by (auto simp: blackman_def split: if_splits)
next
  case False
  then have w: "w = map (\<lambda>i. 0.42 - 0.5 * cos (2 * pi * real_of_int i / real_of_int (M - 1))
                         + 0.08 * cos (4 * pi * real_of_int i / real_of_int (M - 1))) [0..M - 1]"
    using assms(1) by (simp add: blackman_def split: if_splits)
  then have lw: "int (length w) = M" using False by simp
  define j where "j = length w - 1 - i"
  have j: "j < length w" "int j = M - 1 - int i"
    using assms(2) lw by (simp_all add: j_def)
  have ni: "[0..M - 1] ! i = int i" using assms(2) lw by (simp add: nth_upto)
  have nj: "[0..M - 1] ! j = M - 1 - int i" using j lw by (simp add: nth_upto)
  have M1: "real_of_int (M - 1) \<noteq> 0" using False by simp
  have a: "2 * pi * real_of_int (M - 1 - int i) / real_of_int (M - 1)
         = 2 * pi - 2 * pi * real_of_int (int i) / real_of_int (M - 1)"
    using M1 by (simp add: field_simps)
  have b: "4 * pi * real_of_int (M - 1 - int i) / real_of_int (M - 1)
         = 2 * pi + (2 * pi - 4 * pi * real_of_int (int i) / real_of_int (M - 1))"
    using M1 by (simp add: field_simps)
  have "w ! j = 0.42 - 0.5 * cos (2 * pi * real_of_int (M - 1 - int i) / real_of_int (M - 1))
               + 0.08 * cos (4 * pi * real_of_int (M - 1 - int i) / real_of_int (M - 1))"
    using j(1) lw by (simp add: w nj del: of_int_diff)
  also have "\<dots> = 0.42 - 0.5 * cos (2 * pi * real_of_int (int i) / real_of_int (M - 1))
               + 0.08 * cos (4 * pi * real_of_int (int i) / real_of_int (M - 1))"
    unfolding a b by (simp only: cos_2pi_minus cos_periodic cos_add sin_two_pi cos_two_pi) simp
  also have "\<dots> = w ! i"
    using assms(2) lw by (simp add: w ni)
  finally show ?thesis by (simp add: j_def)
qed


lemma neg_one_pow_minus: "neg_one_pow (- n) = neg_one_pow n"
  by (simp add: neg_one_pow_def)

lemma createDerivativeFilter_antisymmetric:
  assumes "createDerivativeFilter N Tsamp = Inr d" "i < length d"
  shows "d ! i = - d ! (length d - 1 - i)"
proof -
  define m where "m = (N - 1) div 2"
  define k where "k = (\<lambda>n. if n \<noteq> 0 then 1 / Tsamp * neg_one_pow n / real_of_int n else 0)"
  from assms(1) obtain w where w: "blackman N = Inr w"
    and d: "d = map2 (*) (map k [- m..m]) w"
    by (auto simp: createDerivativeFilter_def Let_def m_def k_def
             split: if_splits sum.splits)
  from assms(1) have "(N + 1) mod 4 = 0"
    by (auto simp: createDerivativeFilter_def split: if_splits)
  then have odd: "2 * m = N - 1"
    unfolding m_def by presburger
  from w have "0 \<le> N" by (auto simp: blackman_def split: if_splits)
  with length_blackman [of N] w have lw: "int (length w) = N" by auto
  have lu: "int (length [- m..m]) = N"
    using odd \<open>0 \<le> N\<close> by simp
  have lu': "length [- m..m] = length w"
    using lw lu by linarith
  have ld: "length d = length w"
    unfolding d by (simp only: length_map length_zip lu' min.idem)
  define j where "j = length d - 1 - i"
  have j: "j < length d" "int j = N - 1 - int i"
    using assms(2) ld lw by (simp_all add: j_def)
  have ni: "[- m..m] ! i = - m + int i"
    using assms(2) ld lw odd by (intro nth_upto) simp
  have nj: "[- m..m] ! j = - (- m + int i)"
    using j ld lw odd by (subst nth_upto) simp_all
  have kk: "k (- n) = - k n" for n
    by (simp add: k_def neg_one_pow_minus)
  have "d ! i = k (- m + int i) * w ! i"
    using assms(2) ld lu lw by (simp add: d ni)
  moreover have "d ! j = k (- (- m + int i)) * w ! j"
    using j(1) ld lu lw by (simp add: d nj)
  moreover have "w ! i = w ! j"
    using blackman_symmetric [OF w, of i] assms(2) ld by (simp add: j_def)
  moreover have "k (- (- m + int i)) = - k (- m + int i)"
    by (rule kk)
  ultimately show ?thesis
    by (simp only: j_def mult_minus_left minus_minus)
qed

lemma createDerivativeFilter_result_length:
  assumes "createDerivativeFilter N Tsamp = Inr d"
  shows "int (length d) = N"
proof -
  from assms have g: "(N + 1) mod 4 = 0" "Tsamp \<noteq> 0"
    by (auto simp: createDerivativeFilter_def Let_def split: if_splits)
  from assms g have "blackman N \<noteq> Inl ValueError"
    by (auto simp: createDerivativeFilter_def Let_def split: if_splits sum.splits)
  then have "\<not> N < 0" by (auto simp: blackman_def)
  with g(1) have "0 < N" by presburger
  from createDerivativeFilter_length [OF g(1) this g(2)] assms show ?thesis by simp
qed

lemma fractionalDelayCoeffs_mirror:
  assumes "fractionalDelayCoeffs T dT L = Inr r" "fractionalDelayCoeffs T (- dT) L = Inr r'"
    and "i < length r"
  shows "r ! i = r' ! (nat (2 * L) - i)"
proof -
  define s where "s = (\<lambda>dT n. let x = (real_of_int n + dT / T) * pi
                               in if x \<noteq> 0 then sin x / x else 1)"
  from assms(1) have T: "T \<noteq> 0" and r: "r = map (s dT) [- L..L]"
    by (auto simp: fractionalDelayCoeffs_def s_def split: if_splits)
  from assms(2) T have r': "r' = map (s (- dT)) [- L..L]"
    by (auto simp: fractionalDelayCoeffs_def s_def split: if_splits)
  from assms(3) r have i: "int i < 2 * L + 1" by simp
  then have L: "0 \<le> L" by simp
  define j where "j = nat (2 * L) - i"
  have j: "int j = 2 * L - int i" using i L by (simp add: j_def)
  have ni: "[- L..L] ! i = - L + int i"
    using i by (intro nth_upto) simp
  have nj: "[- L..L] ! j = - (- L + int i)"
    using i j by (subst nth_upto) simp_all
  have mir: "s (- dT) (- n) = s dT n" for n
  proof -
    have e: "(real_of_int (- n) + - dT / T) * pi = - ((real_of_int n + dT / T) * pi)"
      by (simp add: algebra_simps)
    show ?thesis
      unfolding s_def Let_def e by simp
  qed
  have "r ! i = s dT (- L + int i)"
    using assms(3) by (simp add: r ni)
  moreover have "r' ! j = s (- dT) (- (- L + int i))"
    using i j L by (simp add: r' nj)
  ultimately show ?thesis
    by (simp only: mir j_def)
qed

lemma upto_m1_1: "[- 1..1] = [- 1, 0, 1::int]"
  by (simp add: upto_rec1)

lemma upto_0_2: "[0..2] = [0, 1, 2::int]"
  by (simp add: upto_rec1)

lemma fractionalDelayCoeffs_half:
  "fractionalDelayCoeffs 1 (1 / 2) 1 = Inr [2 / pi, 2 / pi, - (2 / (3 * pi))]"
proof -
  have "sin (3 * pi / 2) = - 1"
    using sin_3over2_pi by (simp add: mult.commute)
  then show ?thesis
    by (simp add: fractionalDelayCoeffs_def Let_def upto_m1_1)
qed

lemma fractionalDelayCoeffs_minus_half:
  "fractionalDelayCoeffs 1 (- (1 / 2)) 1 = Inr [- (2 / (3 * pi)), 2 / pi, 2 / pi]"
proof -
  have "sin (3 * pi / 2) = - 1"
    using sin_3over2_pi by (simp add: mult.commute)
  then show ?thesis
    by (simp add: fractionalDelayCoeffs_def Let_def upto_m1_1)
qed

lemma fractionalDelayCoeffs_zero: "fractionalDelayCoeffs 1 0 1 = Inr [0, 1, 0]"
  by (simp add: fractionalDelayCoeffs_def Let_def upto_m1_1)

lemma createDerivativeFilter_3: "createDerivativeFilter 3 1 = Inr [0, 0, 0]"
  by (simp add: createDerivativeFilter_def blackman_def Let_def neg_one_pow_def
        upto_m1_1 upto_0_2)

section \<open>Noise specification: the missing-key failure\<close>

text \<open>
  C6. The claim: a call of \<open>addNoise\<close> whose keyword arguments hold neither \<open>N0\<close>
  nor both \<open>SNR\<close> and \<open>Eb\<close> fails with the library's parameter error. The code
  evaluated at the keyword arguments \<open>{Eb: 1}\<close>: the first branch is taken on the
  presence of \<open>Eb\<close> alone, and the lookup of \<open>SNR\<close> raises KeyError instead.
\<close>

theorem addNoise_Eb_only_KeyError:
  "addNoise iqs [''Eb'' \<mapsto> 1] gr gi = Inl (KeyError ''SNR'')"
  by (simp add: addNoise_def)

section \<open>Derivative filter: the length precondition\<close>

text \<open>
  C8, as amended. Every \<open>N\<close> with \<open>(N + 1) mod 4 \<noteq> 0\<close> is rejected with the
  library's \<open>Exception\<close>, whatever \<open>Tsamp\<close> is; for a positive \<open>N\<close> with
  \<open>(N + 1) mod 4 = 0\<close> and a sample time \<open>Tsamp \<noteq> 0\<close> the function returns a
  sequence of \<open>N\<close> real taps.
\<close>

theorem createDerivativeFilter_precondition:
  "((N + 1) mod 4 \<noteq> 0 \<longrightarrow>
      createDerivativeFilter N Tsamp =
        Inl (Exception ''createDerivativeFilter: N must be of form 4*n-1''))
   \<and> ((N + 1) mod 4 = 0 \<and> 0 < N \<and> Tsamp \<noteq> 0 \<longrightarrow>
      (\<exists>d. createDerivativeFilter N Tsamp = Inr d \<and> int (length d) = N))"
  using createDerivativeFilter_length [of N Tsamp]
  by (simp add: createDerivativeFilter_def)

theorem createDerivativeFilter_precondition_witness:
  "createDerivativeFilter 50 1 =
      Inl (Exception ''createDerivativeFilter: N must be of form 4*n-1'')
   \<and> (\<exists>d. createDerivativeFilter 51 1 = Inr d \<and> int (length d) = 51)"
  using createDerivativeFilter_precondition [of 50 1]
        createDerivativeFilter_precondition [of 51 1]
  by simp

text \<open>The claim as stated fails at \<open>Tsamp = 0\<close>: \<open>N = 3\<close> passes the guard and
  \<open>1 / Tsamp\<close> raises.\<close>

theorem createDerivativeFilter_zero_Tsamp:
  "(3 + 1) mod 4 = (0::int) \<and> createDerivativeFilter 3 0 = Inl ZeroDivisionError"
  by (simp add: createDerivativeFilter_def)

section \<open>Edge-corrected filtering: length preservation\<close>

text \<open>
  C1, as amended. For a signal \<open>x\<close> of at least two samples, a positive \<open>N\<close> with
  \<open>(N + 1) mod 4 = 0\<close> and \<open>Tsamp \<noteq> 0\<close>, \<open>derivativeFilter\<close> returns an array of
  the length of \<open>x\<close>; \<open>derivativeFilter2\<close> does so already for a non-empty \<open>x\<close>, with
  either value of \<open>zero_edge\<close>; \<open>fractionalDelayFilter\<close> does so for a signal of
  at least two samples and an odd \<open>N \<ge> 3\<close>, whatever the delay \<open>gamma\<close> is.
\<close>

theorem filters_preserve_length:
  "(2 \<le> length x \<and> 0 < N \<and> (N + 1) mod 4 = 0 \<and> Tsamp \<noteq> 0 \<longrightarrow>
      (\<exists>y. derivativeFilter x N Tsamp = Inr y \<and> length y = length x))
   \<and> (x \<noteq> [] \<and> 0 < N \<and> (N + 1) mod 4 = 0 \<and> Tsamp \<noteq> 0 \<longrightarrow>
      (\<exists>y. derivativeFilter2 x N Tsamp zero_edge = Inr y \<and> length y = length x))
   \<and> (2 \<le> length x \<and> 3 \<le> N \<and> odd N \<longrightarrow>
      (\<exists>y. fractionalDelayFilter x gamma N = Inr y \<and> length y = length x))"
proof (intro conjI impI)
  assume "2 \<le> length x \<and> 0 < N \<and> (N + 1) mod 4 = 0 \<and> Tsamp \<noteq> 0"
  then show "\<exists>y. derivativeFilter x N Tsamp = Inr y \<and> length y = length x"
    by (intro derivativeFilter_length) simp_all
next
  assume "x \<noteq> [] \<and> 0 < N \<and> (N + 1) mod 4 = 0 \<and> Tsamp \<noteq> 0"
  then show "\<exists>y. derivativeFilter2 x N Tsamp zero_edge = Inr y \<and> length y = length x"
    by (intro derivativeFilter2_length) simp_all
next
  assume "2 \<le> length x \<and> 3 \<le> N \<and> odd N"
  then show "\<exists>y. fractionalDelayFilter x gamma N = Inr y \<and> length y = length x"
    by (intro fractionalDelayFilter_length) simp_all
qed

theorem filters_preserve_length_witness:
  "(\<exists>y. derivativeFilter [1, 2] 7 1 = Inr y \<and> length y = 2)
   \<and> (\<exists>y. derivativeFilter2 [1] 7 1 True = Inr y \<and> length y = 1)
   \<and> (\<exists>y. fractionalDelayFilter [1, 2] (1 / 2) 5 = Inr y \<and> length y = 2)"
  using filters_preserve_length [of "[1, 2]" 7 1 True "1 / 2"]
        filters_preserve_length [of "[1]" 7 1 True "1 / 2"]
        filters_preserve_length [of "[1, 2]" 5 1 True "1 / 2"]
  by (simp add: numeral_2_eq_2)

text \<open>The claim as stated, for every non-empty signal, fails on a signal of one sample:
  the linear extrapolation reads \<open>x[1]\<close>.\<close>

theorem extrapolating_filters_single_sample:
  "[1 :: complex] \<noteq> [] \<and> (3 + 1) mod 4 = (0::int)
   \<and> derivativeFilter [1] 3 1 = Inl IndexError
   \<and> fractionalDelayFilter [1] (1 / 2) 3 = Inl IndexError"
  by (simp add: derivativeFilter_def fractionalDelayFilter_def createDerivativeFilter_3
        fractionalDelayCoeffs_half int_half_def extend_single_sample)

section \<open>A derivative filter of seven taps, evaluated\<close>

lemma upto_0_6: "[0..6] = [0, 1, 2, 3, 4, 5, 6::int]"
  by (simp add: upto_rec1)

lemma upto_m1_3: "[- 1..3] = [- 1, 0, 1, 2, 3::int]"
  by (simp add: upto_rec1)

lemma cos_thirds:
  "cos (pi / 3) = 1 / 2" "cos (2 * pi / 3) = - (1 / 2)" "cos (4 * pi / 3) = - (1 / 2)"
  "cos (5 * pi / 3) = 1 / 2" "cos (8 * pi / 3) = - (1 / 2)" "cos (10 * pi / 3) = - (1 / 2)"
proof -
  show a: "cos (pi / 3) = 1 / 2" by (rule cos_60)
  have "cos (2 * pi / 3) = cos (pi - pi / 3)" by (simp add: field_simps)
  then show b: "cos (2 * pi / 3) = - (1 / 2)" by (simp only: cos_pi_minus a)
  have "cos (4 * pi / 3) = cos (pi / 3 + pi)" by (simp add: field_simps)
  then show c: "cos (4 * pi / 3) = - (1 / 2)" by (simp only: cos_periodic_pi a)
  have "cos (5 * pi / 3) = cos (2 * pi - pi / 3)" by (simp add: field_simps)
  then show "cos (5 * pi / 3) = 1 / 2" by (simp only: cos_2pi_minus a)
  have "cos (8 * pi / 3) = cos (2 * pi / 3 + 2 * pi)" by (simp add: field_simps)
  then show "cos (8 * pi / 3) = - (1 / 2)" by (simp only: cos_periodic b)
  have "cos (10 * pi / 3) = cos (4 * pi / 3 + 2 * pi)" by (simp add: field_simps)
  then show "cos (10 * pi / 3) = - (1 / 2)" by (simp only: cos_periodic c)
qed

lemma cos_thirds_commuted:
  "cos (pi * 2 / 3) = - (1 / 2)" "cos (pi * 4 / 3) = - (1 / 2)" "cos (pi * 5 / 3) = 1 / 2"
  using cos_thirds by (simp_all add: mult.commute)

lemma blackman_7: "blackman 7 = Inr [0, 13 / 100, 63 / 100, 1, 63 / 100, 13 / 100, 0]"
  by (simp add: blackman_def upto_0_6 cos_thirds cos_thirds_commuted)

lemma createDerivativeFilter_7:
  "createDerivativeFilter 7 1 = Inr [0, - (13 / 200), 63 / 100, 0, - (63 / 100), 13 / 200, 0]"
  by (simp add: createDerivativeFilter_def blackman_7 upto_m1_3 neg_one_pow_def)

lemma upt_0_8: "[0..<8] = [0, 1, 2, 3, 4, 5, 6, 7]"
  by code_simp

lemma upt_0_2: "[0..<2] = [0, 1]"
  by code_simp

lemma convolve_7:
  "convolve [0, \<i>] [0, - (13 / 200), 63 / 100, 0, - (63 / 100), 13 / 200, 0]
     = Inr [0, 0, - (13 / 200) * \<i>, 63 / 100 * \<i>, 0, - (63 / 100) * \<i>, 13 / 200 * \<i>, 0]"
  by (simp add: convolve_def upt_0_8 upt_0_2)

lemma derivativeFilter2_imaginary:
  "derivativeFilter2 [0, \<i>] 7 1 False = Inr [63 / 100 * \<i>, 0]"
  by (simp add: derivativeFilter2_def createDerivativeFilter_7 int_half_def convolve_7
        slice_def slice_bound_def)


lemma upto_1_3: "[1..3] = [1, 2, 3::int]"
  by (simp add: upto_rec1)

lemma upt_0_14: "[0..<14] = [0, 1, 2, 3, 4, 5, 6, 7, 8, 9, 10, 11, 12, 13]"
  by code_simp

lemma extend_zero: "extend [0, 0] 3 = Inr [0, 0, 0, 0, 0, 0, 0, 0]"
  by (simp add: extend_def zeros_def set_slice_def slice_bound_def getitem_def py_index_def
        upto_1_3 numeral_eq_Suc)

lemma sum_list_zeros: "(\<Sum>j\<leftarrow>js. if P j then (0::real) * f j else 0) = 0"
  by (induction js) simp_all

lemma convolve_zeros:
  "convolve [0, 0, 0, 0, 0, 0, 0, 0 :: real] [0, - (13 / 200), 63 / 100, 0, - (63 / 100), 13 / 200, 0]
     = Inr [0, 0, 0, 0, 0, 0, 0, 0, 0, 0, 0, 0, 0, 0]"
proof -
  have "(\<Sum>j\<leftarrow>[0..<8]. if j \<le> k \<and> k - j < 7
           then [0, 0, 0, 0, 0, 0, 0, 0 :: real] ! j * v ! (k - j) else 0) = 0" for k and v :: "real list"
    by (simp add: upt_0_8)
  then show ?thesis
    by (simp add: convolve_def upt_0_14)
qed

lemma derivativeFilter_zero: "derivativeFilter [0, 0] 7 1 = Inr [0, 0]"
  by (simp add: derivativeFilter_def createDerivativeFilter_7 int_half_def extend_zero
        convolve_zeros slice_def slice_bound_def)

section \<open>Complex input\<close>

text \<open>
  C10. \<open>derivativeFilter\<close> and \<open>fractionalDelayFilter\<close> compute on the real part
  of the input only: replacing every sample by its real part changes nothing, error
  or result. \<open>derivativeFilter2\<close> convolves the complex signal itself: taking the
  real or the imaginary part commutes with it, so the imaginary component of the
  input is filtered into the imaginary component of the output.
\<close>

theorem complex_input_through_filters:
  "derivativeFilter x N Tsamp = derivativeFilter (map (\<lambda>c. complex_of_real (Re c)) x) N Tsamp
   \<and> fractionalDelayFilter x gamma N
       = fractionalDelayFilter (map (\<lambda>c. complex_of_real (Re c)) x) gamma N
   \<and> derivativeFilter2 (map (\<lambda>c. complex_of_real (Im c)) x) N Tsamp zero_edge
       = map_sum id (map (\<lambda>c. complex_of_real (Im c))) (derivativeFilter2 x N Tsamp zero_edge)
   \<and> derivativeFilter2 (map (\<lambda>c. complex_of_real (Re c)) x) N Tsamp zero_edge
       = map_sum id (map (\<lambda>c. complex_of_real (Re c))) (derivativeFilter2 x N Tsamp zero_edge)"
proof (intro conjI)
  show "derivativeFilter2 (map (\<lambda>c. complex_of_real (Im c)) x) N Tsamp zero_edge
       = map_sum id (map (\<lambda>c. complex_of_real (Im c))) (derivativeFilter2 x N Tsamp zero_edge)"
    by (rule derivativeFilter2_real_linear) simp_all
  show "derivativeFilter2 (map (\<lambda>c. complex_of_real (Re c)) x) N Tsamp zero_edge
       = map_sum id (map (\<lambda>c. complex_of_real (Re c))) (derivativeFilter2 x N Tsamp zero_edge)"
    by (rule derivativeFilter2_real_linear) simp_all
qed (simp_all add: derivativeFilter_real_part fractionalDelayFilter_real_part)

text \<open>On the two samples \<open>0, 1j\<close> and seven taps: \<open>derivativeFilter\<close> answers as
  on \<open>0, 0\<close>, while the output of \<open>derivativeFilter2\<close> is imaginary, and is the
  filtered imaginary part of the input.\<close>

theorem complex_input_through_filters_witness:
  "derivativeFilter [0, \<i>] 7 1 = Inr [0, 0]
   \<and> derivativeFilter2 [0, \<i>] 7 1 False = Inr [63 / 100 * \<i>, 0]
   \<and> derivativeFilter2 [0, 1] 7 1 False = Inr [63 / 100, 0]"
proof -
  note T = complex_input_through_filters [of "[0, \<i>]" 7 1 0 False]
  have "derivativeFilter [0, \<i>] 7 1
      = derivativeFilter (map (\<lambda>c. complex_of_real (Re c)) [0, \<i>]) 7 1"
    by (rule T [THEN conjunct1])
  then have a: "derivativeFilter [0, \<i>] 7 1 = Inr [0, 0]"
    by (simp add: derivativeFilter_zero)
  have b: "derivativeFilter2 [0, \<i>] 7 1 False = Inr [63 / 100 * \<i>, 0]"
    by (rule derivativeFilter2_imaginary)
  have "derivativeFilter2 (map (\<lambda>c. complex_of_real (Im c)) [0, \<i>]) 7 1 False
      = map_sum id (map (\<lambda>c. complex_of_real (Im c))) (derivativeFilter2 [0, \<i>] 7 1 False)"
    by (rule T [THEN conjunct2, THEN conjunct2, THEN conjunct1])
  then have c: "derivativeFilter2 [0, 1] 7 1 False = Inr [63 / 100, 0]"
    by (simp add: b)
  show ?thesis
    by (intro conjI a b c)
qed

section \<open>Tap symmetry\<close>

text \<open>
  C4, as amended. The taps \<open>d\<close> returned by \<open>createDerivativeFilter(N, Tsamp)\<close> are
  \<open>N\<close> in number and antisymmetric about the centre: \<open>d[i] = -d[N-1-i]\<close>. The taps
  of \<open>fractionalDelayCoeffs(T, dT, L)\<close> are the mirror image of those for the
  opposite delay: \<open>r[i]\<close> for \<open>dT\<close> is \<open>r'[2L-i]\<close> for \<open>-dT\<close>; they are symmetric
  about the centre when \<open>dT = 0\<close>.
\<close>

theorem filter_tap_symmetry:
  "(createDerivativeFilter N Tsamp = Inr d \<longrightarrow>
      int (length d) = N \<and> (\<forall>i<length d. d ! i = - d ! (length d - 1 - i)))
   \<and> (fractionalDelayCoeffs T dT L = Inr r \<and> fractionalDelayCoeffs T (- dT) L = Inr r' \<longrightarrow>
      length r = nat (2 * L + 1) \<and> (\<forall>i<length r. r ! i = r' ! (nat (2 * L) - i)))
   \<and> (fractionalDelayCoeffs T 0 L = Inr r0 \<longrightarrow>
      (\<forall>i<length r0. r0 ! i = r0 ! (nat (2 * L) - i)))"
proof (intro conjI impI allI)
  assume "createDerivativeFilter N Tsamp = Inr d"
  then show "int (length d) = N"
    by (rule createDerivativeFilter_result_length)
next
  fix i assume "createDerivativeFilter N Tsamp = Inr d" "i < length d"
  then show "d ! i = - d ! (length d - 1 - i)"
    by (rule createDerivativeFilter_antisymmetric)
next
  assume "fractionalDelayCoeffs T dT L = Inr r \<and> fractionalDelayCoeffs T (- dT) L = Inr r'"
  then show "length r = nat (2 * L + 1)"
    by (auto simp: fractionalDelayCoeffs_def split: if_splits)
next
  fix i
  assume "fractionalDelayCoeffs T dT L = Inr r \<and> fractionalDelayCoeffs T (- dT) L = Inr r'"
    and "i < length r"
  then show "r ! i = r' ! (nat (2 * L) - i)"
    using fractionalDelayCoeffs_mirror [of T dT L r r' i] by simp
next
  fix i assume "fractionalDelayCoeffs T 0 L = Inr r0" "i < length r0"
  then show "r0 ! i = r0 ! (nat (2 * L) - i)"
    using fractionalDelayCoeffs_mirror [of T 0 L r0 r0 i] by simp
qed

theorem filter_tap_symmetry_witness:
  "createDerivativeFilter 3 1 = Inr [0, 0, 0]
   \<and> fractionalDelayCoeffs 1 (1 / 2) 1 = Inr [2 / pi, 2 / pi, - (2 / (3 * pi))]
   \<and> fractionalDelayCoeffs 1 (- (1 / 2)) 1 = Inr [- (2 / (3 * pi)), 2 / pi, 2 / pi]
   \<and> fractionalDelayCoeffs 1 0 1 = Inr [0, 1, 0]
   \<and> int (length [0, 0, 0 :: real]) = 3
   \<and> [0, 0, 0 :: real] ! 0 = - [0, 0, 0] ! (length [0, 0, 0 :: real] - 1 - 0)
   \<and> length [2 / pi, 2 / pi, - (2 / (3 * pi))] = nat (2 * 1 + 1)
   \<and> [2 / pi, 2 / pi, - (2 / (3 * pi))] ! 0
        = [- (2 / (3 * pi)), 2 / pi, 2 / pi] ! (nat (2 * 1) - 0)
   \<and> [0, 1, 0 :: real] ! 0 = [0, 1, 0] ! (nat (2 * 1) - 0)"
proof -
  have a: "createDerivativeFilter 3 1 = Inr [0, 0, 0]"
    by (rule createDerivativeFilter_3)
  have b: "fractionalDelayCoeffs 1 (1 / 2) 1 = Inr [2 / pi, 2 / pi, - (2 / (3 * pi))]"
    by (rule fractionalDelayCoeffs_half)
  have c: "fractionalDelayCoeffs 1 (- (1 / 2)) 1 = Inr [- (2 / (3 * pi)), 2 / pi, 2 / pi]"
    by (rule fractionalDelayCoeffs_minus_half)
  have d: "fractionalDelayCoeffs 1 0 1 = Inr [0, 1, 0]"
    by (rule fractionalDelayCoeffs_zero)
  note T = filter_tap_symmetry [of 3 1 "[0, 0, 0]" 1 "1 / 2" 1
      "[2 / pi, 2 / pi, - (2 / (3 * pi))]" "[- (2 / (3 * pi)), 2 / pi, 2 / pi]" "[0, 1, 0]"]
  note A = T [THEN conjunct1, THEN mp, OF a]
  note B = T [THEN conjunct2, THEN conjunct1, THEN mp, OF conjI [OF b c]]
  note C = T [THEN conjunct2, THEN conjunct2, THEN mp, OF d]
  have A0: "[0, 0, 0 :: real] ! 0 = - [0, 0, 0] ! (length [0, 0, 0 :: real] - 1 - 0)"
    by (rule A [THEN conjunct2, THEN spec, THEN mp]) simp
  have B0: "[2 / pi, 2 / pi, - (2 / (3 * pi))] ! 0
        = [- (2 / (3 * pi)), 2 / pi, 2 / pi] ! (nat (2 * 1) - 0)"
    by (rule B [THEN conjunct2, THEN spec, THEN mp]) simp
  have C0: "[0, 1, 0 :: real] ! 0 = [0, 1, 0] ! (nat (2 * 1) - 0)"
    by (rule C [THEN spec, THEN mp]) simp
  show ?thesis
    by (intro conjI a b c d A [THEN conjunct1] A0 B [THEN conjunct1] B0 C0)
qed

text \<open>The claim as stated, symmetry of the fractional-delay taps for every delay,
  fails at \<open>T = 1\<close>, \<open>dT = 1/2\<close>, \<open>L = 1\<close>: the first and the last tap differ.\<close>

theorem fractionalDelayCoeffs_not_symmetric:
  "fractionalDelayCoeffs 1 (1 / 2) 1 = Inr [2 / pi, 2 / pi, - (2 / (3 * pi))]
   \<and> [2 / pi, 2 / pi, - (2 / (3 * pi))] ! 0 \<noteq> [2 / pi, 2 / pi, - (2 / (3 * pi))] ! (2 * 1 - 0)"
proof -
  have "- (2 / (3 * pi)) < 0" "0 < 2 / pi"
    using pi_gt_zero by simp_all
  then have "2 / pi \<noteq> - (2 / (3 * pi))"
    by linarith
  then show ?thesis
    by (simp add: fractionalDelayCoeffs_half)
qed

section \<open>Bits to symbols and back\<close>

lemma ilog2_power: "ilog2 (2 ^ n) = n"
proof (induction n)
  case 0
  show ?case by (simp add: ilog2.simps)
next
  case (Suc n)
  have "\<not> (2::nat) ^ Suc n < 2" by simp
  then show ?case
    using Suc by (subst ilog2.simps) simp
qed

lemma ilog2_floor_log: "0 < n \<Longrightarrow> int (ilog2 n) = \<lfloor>log 2 (real n)\<rfloor>"
proof (induction n rule: ilog2.induct)
  case (1 n)
  show ?case
  proof (cases "n < 2")
    case True
    with "1.prems" have "n = 1" by simp
    then show ?thesis by (simp add: ilog2.simps)
  next
    case False
    then have "0 < n div 2" by simp
    with False "1.IH" have "int (ilog2 (n div 2)) = \<lfloor>log 2 (real (n div 2))\<rfloor>" by simp
    moreover from False have "\<lfloor>log 2 (real n)\<rfloor> = \<lfloor>log 2 (real (n div 2))\<rfloor> + 1"
      by (intro floor_log2_div2) simp
    moreover from False have "ilog2 n = Suc (ilog2 (n div 2))"
      by (subst ilog2.simps) simp
    ultimately show ?thesis by simp
  qed
qed

lemma int_log2_power: "n \<le> 63 \<Longrightarrow> int_log2 (2 ^ n) = Inr n"
proof -
  assume "n \<le> 63"
  then have "(2::int) ^ n < 2 ^ 64"
    by (intro power_strict_increasing) simp_all
  moreover have e: "nat ((2::int) ^ n) = 2 ^ n"
    by (simp add: nat_power_eq)
  ultimately show ?thesis
    by (simp add: int_log2_def ilog2_power e del: nat_numeral nat_power_eq)
qed

lemma length_weights [simp]: "length (weights n) = n"
  by (simp add: weights_def)

lemma weights_Suc: "weights (Suc n) = map (\<lambda>w. 2 * w) (weights n) @ [1]"
proof -
  have "[0..<Suc n] = 0 # map Suc [0..<n]"
    by (simp add: upt_conv_Cons map_Suc_upt del: upt_Suc)
  then show ?thesis
    by (simp add: weights_def rev_map o_def del: upt_Suc)
qed

lemma chunk_value_snoc:
  assumes "length c = n"
  shows "sum_list (map2 (*) (c @ [b]) (weights (Suc n)))
       = 2 * sum_list (map2 (*) c (weights n)) + b"
proof -
  have "map2 (*) (c @ [b]) (weights (Suc n))
      = map2 (*) c (map (\<lambda>w. 2 * w) (weights n)) @ [b]"
    using assms by (simp add: weights_Suc)
  moreover have "sum_list (map2 (*) c (map (\<lambda>w. 2 * w) ws))
      = 2 * sum_list (map2 (*) c ws)" for ws :: "int list"
    by (induction c ws rule: list_induct2') (simp_all add: algebra_simps)
  ultimately show ?thesis by simp
qed


lemma chunk_value_bounds:
  "set c \<subseteq> {0, 1} \<Longrightarrow>
   0 \<le> sum_list (map2 (*) c (weights (length c)))
   \<and> sum_list (map2 (*) c (weights (length c))) < 2 ^ length c"
proof (induction c rule: rev_induct)
  case Nil
  show ?case by (simp add: weights_def)
next
  case (snoc b c)
  then have "b = 0 \<or> b = 1" by auto
  with snoc show ?case
    using chunk_value_snoc [of c "length c" b] by auto
qed

lemma length_bin: "0 < n \<Longrightarrow> v < 2 ^ n \<Longrightarrow> length (bin v) \<le> n"
proof (induction n arbitrary: v)
  case 0
  then show ?case by simp
next
  case (Suc n)
  show ?case
  proof (cases "v < 2")
    case True
    then show ?thesis by (subst bin.simps) simp
  next
    case False
    with Suc.prems have "0 < n" by (cases n) auto
    moreover from Suc.prems have "v div 2 < 2 ^ n" by auto
    ultimately have "length (bin (v div 2)) \<le> n" by (rule Suc.IH)
    with False show ?thesis by (subst bin.simps) simp
  qed
qed

lemma zfill_bin_step:
  assumes "0 < n" "v < 2 ^ Suc n"
  shows "zfill (Suc n) (bin v) = zfill n (bin (v div 2)) @ [digit (v mod 2)]"
proof (cases "v < 2")
  case True
  then have "bin v = [digit v]" "bin (v div 2) = [digit 0]" "v mod 2 = v"
    by (simp_all add: bin.simps)
  moreover have "replicate n CHR ''0'' = replicate (n - 1) CHR ''0'' @ [CHR ''0'']"
    using assms(1) by (cases n) (simp_all add: replicate_append_same)
  ultimately show ?thesis
    by (simp add: zfill_def digit_def)
next
  case False
  then have b: "bin v = bin (v div 2) @ [digit (v mod 2)]"
    by (subst bin.simps) simp
  from assms have "v div 2 < 2 ^ n" by auto
  from length_bin [OF assms(1) this] show ?thesis
    by (simp add: zfill_def b Suc_diff_le)
qed

lemma zfill_bin_chunk:
  assumes "set c \<subseteq> {0, 1}" "c \<noteq> []"
  shows "zfill (length c) (bin (nat (sum_list (map2 (*) c (weights (length c))))))
       = map (\<lambda>b. digit (nat b)) c"
  using assms
proof (induction c rule: rev_induct)
  case Nil
  then show ?case by simp
next
  case (snoc b c)
  then have b: "b = 0 \<or> b = 1" and c: "set c \<subseteq> {0, 1}" by auto
  let ?v = "sum_list (map2 (*) c (weights (length c)))"
  have v: "0 \<le> ?v" "?v < 2 ^ length c"
    using chunk_value_bounds [OF c] by simp_all
  have val: "sum_list (map2 (*) (c @ [b]) (weights (Suc (length c)))) = 2 * ?v + b"
    using chunk_value_snoc [of c "length c" b] by simp
  show ?case
  proof (cases "c = []")
    case True
    with b show ?thesis
      by (auto simp: weights_def zfill_def bin.simps)
  next
    case False
    then have n: "0 < length c" by simp
    have lt: "nat (2 * ?v + b) < 2 ^ Suc (length c)"
      using v b by (auto simp: nat_less_iff)
    have d: "nat (2 * ?v + b) div 2 = nat ?v" "nat (2 * ?v + b) mod 2 = nat b"
      using v b by (auto simp: nat_div_distrib nat_mod_distrib nat_add_distrib nat_mult_distrib)
    from zfill_bin_step [OF n lt] show ?thesis
      using snoc.IH [OF c False] by (simp add: val d)
  qed
qed


lemma chars_to_bits_digits:
  "set c \<subseteq> {0, 1} \<Longrightarrow> chars_to_bits (map (\<lambda>b. digit (nat b)) c) = Inr c"
  by (induction c) (auto simp: int_of_char_def digit_def)

lemma decode_chunk:
  assumes "set c \<subseteq> {0, 1}" "c \<noteq> []"
  shows "chars_to_bits (take (length c)
           (format_0b (length c) (sum_list (map2 (*) c (weights (length c)))))) = Inr c"
proof -
  have "0 \<le> sum_list (map2 (*) c (weights (length c)))"
    using chunk_value_bounds [OF assms(1)] by simp
  then have "format_0b (length c) (sum_list (map2 (*) c (weights (length c))))
      = map (\<lambda>b. digit (nat b)) c"
    using zfill_bin_chunk [OF assms] by (simp add: format_0b_def)
  then show ?thesis
    using chars_to_bits_digits [OF assms(1)] by simp
qed

lemma slice_chunk:
  "(i + 1) * n \<le> length xs \<Longrightarrow>
   slice xs (int (i * n)) (int ((i + 1) * n)) = take n (drop (i * n) xs)"
proof -
  assume a: "(i + 1) * n \<le> length xs"
  then have "i * n \<le> length xs" by simp
  with a have "min ((i + 1) * n) (length xs) - min (i * n) (length xs) = n"
    "min (i * n) (length xs) = i * n"
    by simp_all
  then show ?thesis
    by (simp only: slice_def Let_def slice_bound_nat)
qed

lemma symbol_at_0: "n \<le> length bits \<Longrightarrow>
    symbol_at bits n 0 = sum_list (map2 (*) (take n bits) (weights n))"
  using slice_chunk [of 0 n bits] by (simp add: symbol_at_def)

lemma symbol_at_Suc: "(i + 2) * n \<le> length bits \<Longrightarrow>
    symbol_at bits n (Suc i) = symbol_at (drop n bits) n i"
proof -
  assume a: "(i + 2) * n \<le> length bits"
  then have "(Suc i + 1) * n \<le> length bits" "(i + 1) * n \<le> length (drop n bits)"
    by (simp_all add: algebra_simps)
  then show ?thesis
    using slice_chunk [of "Suc i" n bits] slice_chunk [of i n "drop n bits"]
    by (simp add: symbol_at_def add.commute)
qed

lemma symbols_loop_roundtrip:
  assumes "0 < n"
  shows "length bits = k * n \<Longrightarrow> set bits \<subseteq> {0, 1} \<Longrightarrow>
         symbols_loop n (map (symbol_at bits n) [0..<k]) = Inr bits"
proof (induction k arbitrary: bits)
  case 0
  then show ?case by simp
next
  case (Suc k)
  let ?c = "take n bits"
  let ?r = "drop n bits"
  have lc: "length ?c = n" using Suc.prems(1) by simp
  have c: "set ?c \<subseteq> {0, 1}" "?c \<noteq> []"
    using Suc.prems(2) lc assms by (auto dest: in_set_takeD)
  have r: "length ?r = k * n" "set ?r \<subseteq> {0, 1}"
    using Suc.prems by (auto dest: in_set_dropD)
  have "map (symbol_at bits n) [0..<Suc k]
      = symbol_at bits n 0 # map (\<lambda>i. symbol_at bits n (Suc i)) [0..<k]"
    by (simp add: map_upt_Suc del: upt_Suc)
  also have "map (\<lambda>i. symbol_at bits n (Suc i)) [0..<k] = map (symbol_at ?r n) [0..<k]"
  proof (rule map_cong [OF refl])
    fix i assume "i \<in> set [0..<k]"
    then have "(i + 2) * n \<le> Suc k * n" by (intro mult_le_mono1) simp
    then show "symbol_at bits n (Suc i) = symbol_at ?r n i"
      using Suc.prems(1) by (intro symbol_at_Suc) simp
  qed
  also have "symbol_at bits n 0 = sum_list (map2 (*) ?c (weights (length ?c)))"
    using Suc.prems(1) by (simp add: symbol_at_0 lc)
  finally have m: "map (symbol_at bits n) [0..<Suc k]
      = sum_list (map2 (*) ?c (weights (length ?c))) # map (symbol_at ?r n) [0..<k]" .
  have "chars_to_bits (take n (format_0b n (sum_list (map2 (*) ?c (weights (length ?c))))))
      = Inr ?c"
    using decode_chunk [OF c] by (simp only: lc)
  then show ?case
    unfolding m using Suc.IH [OF r] by simp
qed

lemma bits_symbols_roundtrip:
  assumes "1 \<le> n" "n \<le> 63" "set bits \<subseteq> {0, 1}" "n dvd length bits"
  shows "\<exists>syms. bitsToSymbols bits (2 ^ n) = Inr syms \<and> symbolsToBits syms (2 ^ n) = Inr bits"
proof -
  define k where "k = length bits div n"
  have k: "length bits = k * n"
    using assms(4) by (simp add: k_def)
  have d: "length bits div n = k"
    by (simp add: k_def)
  have "bitsToSymbols bits (2 ^ n) = Inr (map (symbol_at bits n) [0..<k])"
    using assms(1) by (simp add: bitsToSymbols_def int_log2_power [OF assms(2)] d)
  moreover have "symbolsToBits (map (symbol_at bits n) [0..<k]) (2 ^ n) = Inr bits"
    using symbols_loop_roundtrip [OF _ k assms(3)] assms(1)
    by (simp add: symbolsToBits_def int_log2_power [OF assms(2)])
  ultimately show ?thesis by blast
qed


text \<open>
  C7, as amended. For \<open>M = 2 ^ n\<close> with \<open>1 \<le> n \<le> 63\<close> and a sequence \<open>bits\<close> of
  zeros and ones whose length is a multiple of \<open>n\<close>, \<open>bitsToSymbols(bits, M)\<close>
  returns symbols and \<open>symbolsToBits\<close> of these symbols returns \<open>bits\<close>.
\<close>

theorem symbolsToBits_bitsToSymbols:
  "1 \<le> n \<and> n \<le> 63 \<and> set bits \<subseteq> {0, 1} \<and> n dvd length bits \<longrightarrow>
     (\<exists>syms. bitsToSymbols bits (2 ^ n) = Inr syms \<and> symbolsToBits syms (2 ^ n) = Inr bits)"
  using bits_symbols_roundtrip [of n bits] by blast

theorem symbolsToBits_bitsToSymbols_witness:
  "bitsToSymbols [0, 1, 0, 1, 0, 0, 0, 0, 1, 1, 1, 1, 1, 0, 1, 0] 16 = Inr [5, 0, 15, 10]
   \<and> symbolsToBits [5, 0, 15, 10] 16 = Inr [0, 1, 0, 1, 0, 0, 0, 0, 1, 1, 1, 1, 1, 0, 1, 0]"
proof -
  let ?bits = "[0, 1, 0, 1, 0, 0, 0, 0, 1, 1, 1, 1, 1, 0, 1, 0] :: int list"
  have e: "bitsToSymbols ?bits 16 = Inr [5, 0, 15, 10]"
    by code_simp
  have "length ?bits = 4 * 4" by simp
  then have "(4::nat) dvd length ?bits" by (simp only: dvd_triv_left)
  with symbolsToBits_bitsToSymbols [of 4 ?bits]
  obtain syms where "bitsToSymbols ?bits (2 ^ 4) = Inr syms"
    and s: "symbolsToBits syms (2 ^ 4) = Inr ?bits"
    by auto
  with e have "syms = [5, 0, 15, 10]" by simp
  with s e show ?thesis by simp
qed

text \<open>The claim as stated, for every power of two, fails at both ends: \<open>M = 1\<close> gives
  \<open>n = 0\<close> and the division \<open>len(bits) / n\<close> raises on the empty sequence, the only
  one whose length is a multiple of \<open>0\<close>; \<open>M = 2 ** 64\<close> is rejected by \<open>np.log2\<close>.\<close>

theorem bitsToSymbols_degenerate_orders:
  "(1::int) = 2 ^ 0 \<and> bitsToSymbols [] 1 = Inl ZeroDivisionError
   \<and> bitsToSymbols [] (2 ^ 64) = Inl TypeError"
  by (simp add: bitsToSymbols_def int_log2_def ilog2.simps)

section \<open>Frequency-offset estimation: spectrum and peak\<close>

lemma argmax_from_bound:
  "b < i \<Longrightarrow> argmax_from xs i b v < i + length xs"
proof (induction xs arbitrary: i b v)
  case Nil
  then show ?case by simp
next
  case (Cons x xs)
  have "argmax_from xs (Suc i) i x < Suc i + length xs"
    by (rule Cons.IH) simp
  moreover have "argmax_from xs (Suc i) b v < Suc i + length xs"
    using Cons.prems by (intro Cons.IH) simp
  ultimately show ?case by simp
qed

lemma argmax_less_length: "xs \<noteq> [] \<Longrightarrow> argmax xs < length xs"
  using argmax_from_bound [of 0 1] by (cases xs) (auto simp: argmax_def)

lemma power_spectrum_length:
  "rx \<noteq> [] \<Longrightarrow> \<exists>PP2. power_spectrum order rx = Inr PP2 \<and> length PP2 = 2 * length rx"
  by (simp add: power_spectrum_def nonLinearXform_def fft_def Let_def)

lemma power_spectrum_empty: "power_spectrum order [] = Inl ValueError"
  by (simp add: power_spectrum_def nonLinearXform_def fft_def)

lemma Arg_cis: "- pi < a \<Longrightarrow> a \<le> pi \<Longrightarrow> Arg (cis a) = a"
  by (rule cis_Arg_unique) (simp_all add: sgn_cis)

lemma Arg_1: "Arg 1 = 0"
  using Arg_cis [of 0] by simp

lemma upt_4: "[0..<4] = [0, 1, 2, 3]"
  by code_simp

lemma cis_minus_pi: "cis (- pi) = - 1"
  by (simp add: cis_cnj [symmetric])

lemma cis_minus_3pi_half: "cis (- (pi * 3 / 2)) = \<i>"
proof -
  have "- (pi * 3 / 2) = pi / 2 + - (2 * pi)" by (simp add: field_simps)
  then have "cis (- (pi * 3 / 2)) = cis (pi / 2 + - (2 * pi))" by (simp only:)
  also have "\<dots> = cis (pi / 2) * cis (- (2 * pi))" by (simp only: cis_mult)
  finally show ?thesis by (simp add: cis_cnj [symmetric])
qed

lemma fft_two_samples:
  "fft [a, b] 4 = Inr [a + b, a - \<i> * b, a - b, a + \<i> * b]"
  by (simp add: fft_def upt_4 cis_minus_pi cis_minus_3pi_half Let_def numeral_2_eq_2)


lemma spectrum_two_samples:
  "power_spectrum order [1, cis a]
     = bind_err (fft (nonLinearXform order [1, cis a]) 4) (\<lambda>ZZ. Inr (map (\<lambda>c. c * cnj c) ZZ))"
  by (simp add: power_spectrum_def Let_def nonLinearXform_def)

lemma spectrum_last_bin:
  assumes "order * a = - (pi / 2)" "- pi < a" "a \<le> pi"
  shows "power_spectrum order [1, cis a] = Inr [2, 0, 2, 4]"
proof -
  have "nonLinearXform order [1, cis a] = [1, - \<i>]"
    using assms by (simp add: nonLinearXform_def Arg_1 Arg_cis cis_cnj cis_mult)
  then show ?thesis
    by (simp add: spectrum_two_samples fft_two_samples complex_eq_iff)
qed

lemma spectrum_nyquist_bin:
  assumes "order * a = pi" "- pi < a" "a \<le> pi"
  shows "power_spectrum order [1, cis a] = Inr [0, 2, 4, 2]"
proof -
  have "nonLinearXform order [1, cis a] = [1, - 1]"
    using assms by (simp add: nonLinearXform_def Arg_1 Arg_cis cis_cnj cis_mult)
  then show ?thesis
    by (simp add: spectrum_two_samples fft_two_samples complex_eq_iff)
qed

lemma argmax_last: "argmax [2, 0, 2, 4] = 3"
  by (simp add: argmax_def complex_less_def)

lemma argmax_nyquist: "argmax [0, 2, 4, 2] = 2"
  by (simp add: argmax_def complex_less_def)


lemma spectrum_zero_offset: "power_spectrum order [1, 1] = Inr [4, 2, 0, 2]"
proof -
  have "nonLinearXform order [1, 1] = [1, 1]"
    by (simp add: nonLinearXform_def Arg_1)
  moreover have "power_spectrum order [1, 1]
      = bind_err (fft (nonLinearXform order [1, 1]) 4) (\<lambda>ZZ. Inr (map (\<lambda>c. c * cnj c) ZZ))"
    by (simp add: power_spectrum_def Let_def nonLinearXform_def)
  ultimately show ?thesis
    by (simp add: fft_two_samples complex_eq_iff)
qed

lemma argmax_zero_offset: "argmax [4, 2, 0, 2] = 0"
  by (simp add: argmax_def complex_less_def)

lemma peak_binE:
  assumes "rx \<noteq> []" "peak_bin order rx = Inr idx"
  obtains PP2 where "power_spectrum order rx = Inr PP2" "length PP2 = 2 * length rx"
    "argmax PP2 = idx" "idx < 2 * length rx"
proof -
  from power_spectrum_length [OF assms(1), of order] obtain PP2
    where p: "power_spectrum order rx = Inr PP2" and l: "length PP2 = 2 * length rx"
    by blast
  with assms(2) have a: "argmax PP2 = idx"
    by (simp add: peak_bin_def)
  from l assms(1) have "PP2 \<noteq> []" by auto
  from argmax_less_length [OF this] a l have "idx < 2 * length rx" by simp
  with p l a show ?thesis by (rule that)
qed

lemma neighbours_in_range:
  assumes "idx + 1 < length PP2"
  shows "\<exists>P1 P2 P3. getitem PP2 (int idx - 1) = Inr P1 \<and> getitem PP2 (int idx) = Inr P2
           \<and> getitem PP2 (int idx + 1) = Inr P3"
proof -
  have "\<exists>v. getitem PP2 (int idx - 1) = Inr v"
    using assms by (intro getitem_ok) simp_all
  moreover have "\<exists>v. getitem PP2 (int idx) = Inr v"
    using assms by (intro getitem_ok) simp_all
  moreover have "\<exists>v. getitem PP2 (int idx + 1) = Inr v"
    using assms by (intro getitem_ok) simp_all
  ultimately show ?thesis by blast
qed

lemma IndexError_at_last_bin:
  assumes "rx \<noteq> []" "peak_bin order rx = Inr (2 * length rx - 1)"
  shows "freqOffsetEstimation order rx mode = Inl IndexError"
proof -
  define k where "k = 2 * length rx - 1"
  from assms obtain PP2 where p: "power_spectrum order rx = Inr PP2"
    and l: "length PP2 = 2 * length rx" and a: "argmax PP2 = k"
    unfolding k_def by (rule peak_binE)
  from assms(1) have "1 \<le> length rx" by (cases rx) simp_all
  with l have kl: "int k + 1 = int (length PP2)" "1 \<le> int k"
    unfolding k_def by linarith+
  have "\<exists>v. getitem PP2 (int k - 1) = Inr v"
    using kl by (intro getitem_ok) linarith+
  then obtain P1 where P1: "getitem PP2 (int k - 1) = Inr P1" ..
  have "\<exists>v. getitem PP2 (int k) = Inr v"
    using kl by (intro getitem_ok) linarith+
  then obtain P2 where P2: "getitem PP2 (int k) = Inr P2" ..
  have P3: "getitem PP2 (int k + 1) = Inl IndexError"
    unfolding kl(1) by (simp add: getitem_def py_index_def)
  show ?thesis
    unfolding freqOffsetEstimation_def p bind_err_simps Let_def a P1 P2 P3 ..
qed

lemma coarse_value:
  assumes "rx \<noteq> []" "peak_bin order rx = Inr idx" "idx + 1 < 2 * length rx"
  shows "freqOffsetEstimation order rx ''coarse''
       = Inr (if real (2 * length rx) / 2 \<le> real idx
              then (real idx - real (2 * length rx)) / (real (2 * length rx) * order)
              else real idx / (real (2 * length rx) * order))"
proof -
  from assms(1,2) obtain PP2 where p: "power_spectrum order rx = Inr PP2"
    and l: "length PP2 = 2 * length rx" and a: "argmax PP2 = idx"
    by (rule peak_binE)
  from assms(3) l have "idx + 1 < length PP2" by simp
  from neighbours_in_range [OF this] obtain P1 P2 P3
    where g: "getitem PP2 (int idx - 1) = Inr P1" "getitem PP2 (int idx) = Inr P2"
      "getitem PP2 (int idx + 1) = Inr P3"
    by blast
  show ?thesis
    unfolding freqOffsetEstimation_def p bind_err_simps Let_def a g by simp
qed

lemma coarse_range:
  assumes "0 < order" "0 < L" "idx < L"
  shows "- (1 / (2 * order))
           \<le> (if real L / 2 \<le> real idx then (real idx - real L) / (real L * order)
               else real idx / (real L * order))"
    and "(if real L / 2 \<le> real idx then (real idx - real L) / (real L * order)
          else real idx / (real L * order)) < 1 / (2 * order)"
  using assms by (auto simp: field_simps)

lemma unknown_mode_Exception:
  assumes "rx \<noteq> []" "peak_bin order rx \<noteq> Inr (2 * length rx - 1)"
    and "mode \<notin> {''coarse'', ''gauss'', ''interp_1'', ''interp_2''}"
  shows "freqOffsetEstimation order rx mode = Inl (Exception ''Invalid mode.'')"
proof -
  from power_spectrum_length [OF assms(1), of order] obtain PP2
    where p: "power_spectrum order rx = Inr PP2" and l: "length PP2 = 2 * length rx"
    by blast
  from l assms(1) have "PP2 \<noteq> []" by auto
  from argmax_less_length [OF this] have "argmax PP2 < length PP2" .
  moreover from assms(2) p have "argmax PP2 \<noteq> 2 * length rx - 1"
    by (simp add: peak_bin_def)
  ultimately have "argmax PP2 + 1 < length PP2"
    using l by simp
  from neighbours_in_range [OF this] obtain P1 P2 P3
    where g: "getitem PP2 (int (argmax PP2) - 1) = Inr P1"
      "getitem PP2 (int (argmax PP2)) = Inr P2"
      "getitem PP2 (int (argmax PP2) + 1) = Inr P3"
    by blast
  show ?thesis
    unfolding freqOffsetEstimation_def p bind_err_simps Let_def g using assms(3) by simp
qed

lemma getitem_error: "getitem xs i = Inl e \<Longrightarrow> e = IndexError"
  by (simp add: getitem_def split: option.splits)

lemma power_spectrum_error: "power_spectrum order rx = Inl e \<Longrightarrow> e = ValueError"
  by (simp add: power_spectrum_def fft_def Let_def split: if_splits)

lemma Exception_only_for_mode:
  assumes "freqOffsetEstimation order rx mode = Inl (Exception msg)"
  shows "mode \<notin> {''coarse'', ''gauss'', ''interp_1'', ''interp_2''}"
proof (cases "power_spectrum order rx")
  case (Inl e)
  with assms power_spectrum_error [OF Inl] show ?thesis
    by (simp add: freqOffsetEstimation_def)
next
  case p: (Inr PP2)
  show ?thesis
  proof (cases "getitem PP2 (int (argmax PP2) - 1)")
    case (Inl e)
    with assms p getitem_error [OF Inl] show ?thesis
      by (simp add: freqOffsetEstimation_def Let_def)
  next
    case P1: (Inr P1)
    show ?thesis
    proof (cases "getitem PP2 (int (argmax PP2))")
      case (Inl e)
      with assms p P1 getitem_error [OF Inl] show ?thesis
        by (simp add: freqOffsetEstimation_def Let_def)
    next
      case P2: (Inr P2)
      show ?thesis
      proof (cases "getitem PP2 (int (argmax PP2) + 1)")
        case (Inl e)
        with assms p P1 P2 getitem_error [OF Inl] show ?thesis
          by (simp add: freqOffsetEstimation_def Let_def)
      next
        case P3: (Inr P3)
        from assms show ?thesis
          unfolding freqOffsetEstimation_def p bind_err_simps Let_def P1 P2 P3
          by (simp split: if_splits)
      qed
    qed
  qed
qed


lemma peak_last_qpsk: "peak_bin 4 [1, cis (- (pi / 8))] = Inr 3"
proof -
  have "4 * - (pi / 8) = - (pi / 2)" by simp
  moreover have "- pi < - (pi / 8)" "- (pi / 8) \<le> pi"
    using pi_gt_zero by linarith+
  ultimately have "power_spectrum 4 [1, cis (- (pi / 8))] = Inr [2, 0, 2, 4]"
    by (rule spectrum_last_bin)
  then show ?thesis
    by (simp add: peak_bin_def argmax_last)
qed

lemma peak_last_16apsk: "peak_bin 12 [1, cis (- (pi / 24))] = Inr 3"
proof -
  have "12 * - (pi / 24) = - (pi / 2)" by simp
  moreover have "- pi < - (pi / 24)" "- (pi / 24) \<le> pi"
    using pi_gt_zero by linarith+
  ultimately have "power_spectrum 12 [1, cis (- (pi / 24))] = Inr [2, 0, 2, 4]"
    by (rule spectrum_last_bin)
  then show ?thesis
    by (simp add: peak_bin_def argmax_last)
qed

lemma peak_nyquist_qpsk: "peak_bin 4 [1, cis (pi / 4)] = Inr 2"
proof -
  have "4 * (pi / 4) = pi" by simp
  moreover have "- pi < pi / 4" "pi / 4 \<le> pi"
    using pi_gt_zero by linarith+
  ultimately have "power_spectrum 4 [1, cis (pi / 4)] = Inr [0, 2, 4, 2]"
    by (rule spectrum_nyquist_bin)
  then show ?thesis
    by (simp add: peak_bin_def argmax_nyquist)
qed

lemma peak_zero_offset: "peak_bin order [1, 1] = Inr 0"
  by (simp add: peak_bin_def spectrum_zero_offset argmax_zero_offset)

lemma spectrum_one_sample: "power_spectrum order [1] = Inr [1, 1]"
  by (simp add: power_spectrum_def nonLinearXform_def Arg_1 fft_def upt_0_2 Let_def)

lemma peak_one_sample: "peak_bin order [1] = Inr 0"
  by (simp add: peak_bin_def spectrum_one_sample argmax_def complex_less_def)

lemma coarse_one_sample: "freqOffsetEstimation order [1] ''coarse'' = Inr 0"
  by (simp add: freqOffsetEstimation_def spectrum_one_sample argmax_def complex_less_def
        getitem_def py_index_def Let_def)

section \<open>The peak at the last FFT bin\<close>

text \<open>
  C9, as amended. There is a non-empty input for which \<open>np.argmax\<close> of the power
  spectrum after the nonlinear transform returns the last bin, index
  \<open>2 * len(rx) - 1\<close> (the maximum is first attained there), for the QPSK and for the
  16-APSK estimator; and on every such input either estimator raises IndexError in
  every mode, \<open>coarse\<close> included: \<open>PP2[idx_max + 1]\<close> is read before the mode is
  looked at.
\<close>

theorem peak_at_last_bin_IndexError:
  "(\<exists>rx. rx \<noteq> [] \<and> peak_bin 4 rx = Inr (2 * length rx - 1))
   \<and> (\<exists>rx. rx \<noteq> [] \<and> peak_bin 12 rx = Inr (2 * length rx - 1))
   \<and> (\<forall>rx mode. rx \<noteq> [] \<and> peak_bin 4 rx = Inr (2 * length rx - 1) \<longrightarrow>
          freqOffsetEstimationQpsk rx mode = Inl IndexError)
   \<and> (\<forall>rx mode. rx \<noteq> [] \<and> peak_bin 12 rx = Inr (2 * length rx - 1) \<longrightarrow>
          freqOffsetEstimation16Apsk rx mode = Inl IndexError)"
proof (intro conjI allI impI)
  have "peak_bin 4 [1, cis (- (pi / 8))] = Inr (2 * length [1, cis (- (pi / 8))] - 1)"
    by (simp add: peak_last_qpsk)
  then show "\<exists>rx. rx \<noteq> [] \<and> peak_bin 4 rx = Inr (2 * length rx - 1)"
    by blast
next
  have "peak_bin 12 [1, cis (- (pi / 24))] = Inr (2 * length [1, cis (- (pi / 24))] - 1)"
    by (simp add: peak_last_16apsk)
  then show "\<exists>rx. rx \<noteq> [] \<and> peak_bin 12 rx = Inr (2 * length rx - 1)"
    by blast
next
  fix rx mode assume "rx \<noteq> [] \<and> peak_bin 4 rx = Inr (2 * length rx - 1)"
  then show "freqOffsetEstimationQpsk rx mode = Inl IndexError"
    by (simp add: freqOffsetEstimationQpsk_def IndexError_at_last_bin)
next
  fix rx mode assume "rx \<noteq> [] \<and> peak_bin 12 rx = Inr (2 * length rx - 1)"
  then show "freqOffsetEstimation16Apsk rx mode = Inl IndexError"
    by (simp add: freqOffsetEstimation16Apsk_def IndexError_at_last_bin)
qed

theorem peak_at_last_bin_IndexError_witness:
  "peak_bin 4 [1, cis (- (pi / 8))] = Inr 3
   \<and> peak_bin 12 [1, cis (- (pi / 24))] = Inr 3
   \<and> freqOffsetEstimationQpsk [1, cis (- (pi / 8))] ''coarse'' = Inl IndexError
   \<and> freqOffsetEstimation16Apsk [1, cis (- (pi / 24))] ''coarse'' = Inl IndexError"
proof -
  have a: "peak_bin 4 [1, cis (- (pi / 8))] = Inr 3"
    by (rule peak_last_qpsk)
  have b: "peak_bin 12 [1, cis (- (pi / 24))] = Inr 3"
    by (rule peak_last_16apsk)
  note T = peak_at_last_bin_IndexError
  have c: "freqOffsetEstimationQpsk [1, cis (- (pi / 8))] ''coarse'' = Inl IndexError"
    by (rule T [THEN conjunct2, THEN conjunct2, THEN conjunct1, THEN spec, THEN spec, THEN mp])
       (simp add: a)
  have d: "freqOffsetEstimation16Apsk [1, cis (- (pi / 24))] ''coarse'' = Inl IndexError"
    by (rule T [THEN conjunct2, THEN conjunct2, THEN conjunct2, THEN spec, THEN spec, THEN mp])
       (simp add: b)
  show ?thesis
    by (intro conjI a b c d)
qed

text \<open>
  The claim as stated asks only that the spectrum attain its maximum at the last bin.
  For the one-sample input \<open>[1]\<close> the spectrum is \<open>[1, 1]\<close>: the last bin, index
  \<open>1 = 2 * len(rx) - 1\<close>, holds the maximum, and so does bin \<open>0\<close>. \<open>np.argmax\<close>
  returns the first of them, \<open>PP2[idx_max + 1]\<close> is \<open>PP2[1]\<close>, and \<open>coarse\<close> returns
  \<open>0\<close> instead of raising.
\<close>

theorem maximum_tied_at_last_bin:
  "power_spectrum 4 [1] = Inr [1, 1]
   \<and> power_spectrum 12 [1] = Inr [1, 1]
   \<and> \<not> complex_less ([1, 1] ! (2 * length [1 :: complex] - 1)) ([1, 1] ! 0)
   \<and> peak_bin 4 [1] = Inr 0
   \<and> peak_bin 12 [1] = Inr 0
   \<and> freqOffsetEstimationQpsk [1] ''coarse'' = Inr 0
   \<and> freqOffsetEstimation16Apsk [1] ''coarse'' = Inr 0"
  by (simp add: spectrum_one_sample peak_one_sample coarse_one_sample complex_less_def
        freqOffsetEstimationQpsk_def freqOffsetEstimation16Apsk_def)

section \<open>The coarse estimate\<close>

text \<open>
  C2, as amended. For a non-empty \<open>rx\<close> whose peak bin \<open>idx_max\<close> is not the last
  bin (\<open>idx_max + 1 < Lfft\<close>, \<open>Lfft = 2 * len(rx)\<close>), mode \<open>coarse\<close> returns
  \<open>(idx_max - Lfft) / (Lfft * order)\<close> when \<open>idx_max \<ge> Lfft / 2\<close> and
  \<open>idx_max / (Lfft * order)\<close> otherwise, with \<open>order = 4\<close> for QPSK and \<open>12\<close> for
  16-APSK, and the value lies in the interval \<open>[-1/(2 order), 1/(2 order))\<close>,
  closed on the left and open on the right.
\<close>

theorem coarse_estimate:
  "(rx \<noteq> [] \<and> peak_bin 4 rx = Inr idx \<and> idx + 1 < 2 * length rx \<longrightarrow>
      (let Lfft = 2 * length rx;
           v = (if real Lfft / 2 \<le> real idx then (real idx - real Lfft) / (real Lfft * 4)
                else real idx / (real Lfft * 4))
       in freqOffsetEstimationQpsk rx ''coarse'' = Inr v
          \<and> - (1 / (2 * 4)) \<le> v \<and> v < 1 / (2 * 4)))
   \<and> (rx \<noteq> [] \<and> peak_bin 12 rx = Inr idx \<and> idx + 1 < 2 * length rx \<longrightarrow>
      (let Lfft = 2 * length rx;
           v = (if real Lfft / 2 \<le> real idx then (real idx - real Lfft) / (real Lfft * 12)
                else real idx / (real Lfft * 12))
       in freqOffsetEstimation16Apsk rx ''coarse'' = Inr v
          \<and> - (1 / (2 * 12)) \<le> v \<and> v < 1 / (2 * 12)))"
proof (intro conjI impI)
  assume a: "rx \<noteq> [] \<and> peak_bin 4 rx = Inr idx \<and> idx + 1 < 2 * length rx"
  then have "0 < 2 * length rx" "idx < 2 * length rx" by simp_all
  from coarse_range [OF _ this, of 4] coarse_value [of rx 4 idx] a
  show "let Lfft = 2 * length rx;
           v = (if real Lfft / 2 \<le> real idx then (real idx - real Lfft) / (real Lfft * 4)
                else real idx / (real Lfft * 4))
       in freqOffsetEstimationQpsk rx ''coarse'' = Inr v
          \<and> - (1 / (2 * 4)) \<le> v \<and> v < 1 / (2 * 4)"
    unfolding Let_def freqOffsetEstimationQpsk_def by simp
next
  assume a: "rx \<noteq> [] \<and> peak_bin 12 rx = Inr idx \<and> idx + 1 < 2 * length rx"
  then have "0 < 2 * length rx" "idx < 2 * length rx" by simp_all
  from coarse_range [OF _ this, of 12] coarse_value [of rx 12 idx] a
  show "let Lfft = 2 * length rx;
           v = (if real Lfft / 2 \<le> real idx then (real idx - real Lfft) / (real Lfft * 12)
                else real idx / (real Lfft * 12))
       in freqOffsetEstimation16Apsk rx ''coarse'' = Inr v
          \<and> - (1 / (2 * 12)) \<le> v \<and> v < 1 / (2 * 12)"
    unfolding Let_def freqOffsetEstimation16Apsk_def by simp
qed

theorem coarse_estimate_witness:
  "peak_bin 4 [1, 1] = Inr 0 \<and> peak_bin 12 [1, 1] = Inr 0
   \<and> freqOffsetEstimationQpsk [1, 1] ''coarse'' = Inr 0
   \<and> freqOffsetEstimation16Apsk [1, 1] ''coarse'' = Inr 0"
proof -
  have a: "peak_bin 4 [1, 1] = Inr 0" "peak_bin 12 [1, 1] = Inr 0"
    by (simp_all add: peak_zero_offset)
  from coarse_estimate [of "[1, 1]" 0] a show ?thesis
    by (simp add: Let_def)
qed

text \<open>The interval of the claim as stated, open on the left, is left at the input
  \<open>[1, exp(1j pi / 4)]\<close>: the peak is the bin \<open>Lfft / 2\<close>, which the code counts as a
  negative frequency, and the QPSK estimate is \<open>-1/8\<close>.\<close>

theorem coarse_estimate_at_nyquist_bin:
  "freqOffsetEstimationQpsk [1, cis (pi / 4)] ''coarse'' = Inr (- (1 / 8))
   \<and> \<not> (- (1 / (2 * 4)) < (- (1 / 8) :: real))"
proof -
  have "peak_bin 4 [1, cis (pi / 4)] = Inr 2"
    by (rule peak_nyquist_qpsk)
  from coarse_value [OF _ this] show ?thesis
    by (simp add: freqOffsetEstimationQpsk_def)
qed

section \<open>The mode check\<close>

text \<open>
  C5, as amended. For a non-empty \<open>rx\<close> whose peak is not at the last bin and a
  \<open>mode\<close> outside \<open>coarse\<close>, \<open>gauss\<close>, \<open>interp_1\<close>, \<open>interp_2\<close>, either estimator
  fails with the library's \<open>Exception('Invalid mode.')\<close>. The library's own error
  is raised for nothing else: whenever an estimator fails with an \<open>Exception\<close>, the
  mode is outside the four.
\<close>

theorem invalid_mode:
  "(rx \<noteq> [] \<and> peak_bin 4 rx \<noteq> Inr (2 * length rx - 1)
      \<and> mode \<notin> {''coarse'', ''gauss'', ''interp_1'', ''interp_2''} \<longrightarrow>
      freqOffsetEstimationQpsk rx mode = Inl (Exception ''Invalid mode.''))
   \<and> (rx \<noteq> [] \<and> peak_bin 12 rx \<noteq> Inr (2 * length rx - 1)
      \<and> mode \<notin> {''coarse'', ''gauss'', ''interp_1'', ''interp_2''} \<longrightarrow>
      freqOffsetEstimation16Apsk rx mode = Inl (Exception ''Invalid mode.''))
   \<and> (freqOffsetEstimationQpsk rx mode = Inl (Exception msg) \<longrightarrow>
      mode \<notin> {''coarse'', ''gauss'', ''interp_1'', ''interp_2''})
   \<and> (freqOffsetEstimation16Apsk rx mode = Inl (Exception msg) \<longrightarrow>
      mode \<notin> {''coarse'', ''gauss'', ''interp_1'', ''interp_2''})"
proof (intro conjI impI)
  assume "rx \<noteq> [] \<and> peak_bin 4 rx \<noteq> Inr (2 * length rx - 1)
      \<and> mode \<notin> {''coarse'', ''gauss'', ''interp_1'', ''interp_2''}"
  then show "freqOffsetEstimationQpsk rx mode = Inl (Exception ''Invalid mode.'')"
    unfolding freqOffsetEstimationQpsk_def by (intro unknown_mode_Exception) simp_all
next
  assume "rx \<noteq> [] \<and> peak_bin 12 rx \<noteq> Inr (2 * length rx - 1)
      \<and> mode \<notin> {''coarse'', ''gauss'', ''interp_1'', ''interp_2''}"
  then show "freqOffsetEstimation16Apsk rx mode = Inl (Exception ''Invalid mode.'')"
    unfolding freqOffsetEstimation16Apsk_def by (intro unknown_mode_Exception) simp_all
next
  assume "freqOffsetEstimationQpsk rx mode = Inl (Exception msg)"
  then show "mode \<notin> {''coarse'', ''gauss'', ''interp_1'', ''interp_2''}"
    unfolding freqOffsetEstimationQpsk_def by (rule Exception_only_for_mode)
next
  assume "freqOffsetEstimation16Apsk rx mode = Inl (Exception msg)"
  then show "mode \<notin> {''coarse'', ''gauss'', ''interp_1'', ''interp_2''}"
    unfolding freqOffsetEstimation16Apsk_def by (rule Exception_only_for_mode)
qed

theorem invalid_mode_witness:
  "''fine'' \<notin> {''coarse'', ''gauss'', ''interp_1'', ''interp_2''}
   \<and> peak_bin 4 [1, 1] = Inr 0 \<and> peak_bin 12 [1, 1] = Inr 0
   \<and> freqOffsetEstimationQpsk [1, 1] ''fine'' = Inl (Exception ''Invalid mode.'')
   \<and> freqOffsetEstimation16Apsk [1, 1] ''fine'' = Inl (Exception ''Invalid mode.'')"
proof -
  have a: "peak_bin 4 [1, 1] = Inr 0" "peak_bin 12 [1, 1] = Inr 0"
    by (simp_all add: peak_zero_offset)
  from invalid_mode [of "[1, 1]" "''fine''" "''Invalid mode.''"] a show ?thesis
    by simp
qed

text \<open>The claim as stated, for every input, fails on the empty input: the FFT of
  length \<open>0\<close> raises ValueError before the mode is looked at.\<close>

theorem invalid_mode_on_empty_input:
  "''fine'' \<notin> {''coarse'', ''gauss'', ''interp_1'', ''interp_2''}
   \<and> freqOffsetEstimationQpsk [] ''fine'' = Inl ValueError
   \<and> freqOffsetEstimation16Apsk [] ''fine'' = Inl ValueError"
  by (simp add: freqOffsetEstimationQpsk_def freqOffsetEstimation16Apsk_def
        freqOffsetEstimation_def power_spectrum_empty)

end
